theory Spec2Isabelle
  imports Main "HOL-Library.Multiset"
begin

section \<open>JavaScript values as the proxy sees them\<close>

text \<open>
  The proxy (\<^verbatim>\<open>src/orange-proxy/index.js\<close>) reads every protocol frame through
  \<^verbatim>\<open>JSON.parse\<close>, so the values it inspects are JSON values, and \<^verbatim>\<open>undefined\<close>
  where a property or an array element is absent. Numbers that matter to the code
  (event kinds, balances in sats) are integers. An object is the list of its own
  properties, each key once.
\<close>

datatype js =
    JUndefined
  | JNull
  | JBool bool
  | JNum int
  | JStr string
  | JArr "js list"
  | JObj "(string \<times> js) list"

text \<open>What an \<^verbatim>\<open>if\<close>, \<^verbatim>\<open>!\<close>, \<^verbatim>\<open>&&\<close> or \<^verbatim>\<open>while\<close> makes of a value.\<close>

fun truthy :: "js \<Rightarrow> bool" where
  "truthy JUndefined = False"
| "truthy JNull = False"
| "truthy (JBool b) = b"
| "truthy (JNum n) = (n \<noteq> 0)"
| "truthy (JStr s) = (s \<noteq> [])"
| "truthy (JArr xs) = True"
| "truthy (JObj kvs) = True"

text \<open>\<^verbatim>\<open>typeof v === "object"\<close>: objects, arrays and \<^verbatim>\<open>null\<close>.\<close>

fun typeof_object :: "js \<Rightarrow> bool" where
  "typeof_object JNull = True"
| "typeof_object (JArr xs) = True"
| "typeof_object (JObj kvs) = True"
| "typeof_object v = False"

text \<open>
  \<^verbatim>\<open>a === b\<close>: primitives are compared by value; two arrays or objects that come
  from different places are never the same reference.
\<close>

fun primitive :: "js \<Rightarrow> bool" where
  "primitive (JArr xs) = False"
| "primitive (JObj kvs) = False"
| "primitive v = True"

definition strict_eq :: "js \<Rightarrow> js \<Rightarrow> bool" where
  "strict_eq a b = (primitive a \<and> a = b)"

datatype error = SyntaxError | TypeError | LibraryError

type_synonym 'a result = "error + 'a"

text \<open>\<^verbatim>\<open>try { body } catch (e) { handler }\<close> on results: \<open>Inl\<close> is a thrown exception.\<close>

definition try_catch :: "'a result \<Rightarrow> (error \<Rightarrow> 'a result) \<Rightarrow> 'a result" where
  "try_catch body handler = (case body of Inl e \<Rightarrow> handler e | Inr v \<Rightarrow> Inr v)"

text \<open>
  The source reads array elements only at the indices 0 and 1 (\<^verbatim>\<open>msg[0]\<close>,
  \<^verbatim>\<open>msg[1]\<close>, \<^verbatim>\<open>event[0]\<close>, \<^verbatim>\<open>event[1]\<close>); every other property it reads has a
  name (\<^verbatim>\<open>kind\<close>, \<^verbatim>\<open>pubkey\<close>, \<^verbatim>\<open>content\<close>, \<^verbatim>\<open>id\<close>, \<^verbatim>\<open>tags\<close>).
\<close>

definition key_index :: "string \<Rightarrow> nat option" where
  "key_index k = (if k = ''0'' then Some 0 else if k = ''1'' then Some 1 else None)"

text \<open>
  Property access \<^verbatim>\<open>v[k]\<close> or \<^verbatim>\<open>v.k\<close>: a \<^verbatim>\<open>TypeError\<close> on \<^verbatim>\<open>undefined\<close> and
  \<^verbatim>\<open>null\<close>, \<^verbatim>\<open>undefined\<close> where the property is absent.
\<close>

fun get :: "js \<Rightarrow> string \<Rightarrow> js result" where
  "get JUndefined k = Inl TypeError"
| "get JNull k = Inl TypeError"
| "get (JObj kvs) k = Inr (case map_of kvs k of Some v \<Rightarrow> v | None \<Rightarrow> JUndefined)"
| "get (JArr xs) k =
     Inr (case key_index k of
            Some i \<Rightarrow> if i < length xs then xs ! i else JUndefined
          | None \<Rightarrow> JUndefined)"
| "get (JStr s) k =
     Inr (case key_index k of
            Some i \<Rightarrow> if i < length s then JStr [s ! i] else JUndefined
          | None \<Rightarrow> JUndefined)"
| "get v k = Inr JUndefined"

text \<open>
  An array pattern (\<^verbatim>\<open>[name]\<close>, \<^verbatim>\<open>[, challengeTag]\<close>) takes the \<open>i\<close>-th element of
  an iterable: arrays and strings are iterable, everything else raises \<^verbatim>\<open>TypeError\<close>.
\<close>

fun destructure :: "js \<Rightarrow> nat \<Rightarrow> js result" where
  "destructure (JArr xs) i = Inr (if i < length xs then xs ! i else JUndefined)"
| "destructure (JStr s) i = Inr (if i < length s then JStr [s ! i] else JUndefined)"
| "destructure v i = Inl TypeError"

section \<open>Configuration and library functions\<close>

text \<open>
  \<^verbatim>\<open>./config\<close>, \<^verbatim>\<open>./bot\<close>, \<^verbatim>\<open>nostr-tools\<close>, \<^verbatim>\<open>url\<close> and \<^verbatim>\<open>JSON\<close> are not part of the
  file; what the file uses of them is a parameter of the model.
  \<^item> \<open>JSON_parse\<close>: \<open>None\<close> when \<^verbatim>\<open>JSON.parse\<close> throws \<^verbatim>\<open>SyntaxError\<close>;
  \<^item> \<open>validateEvent\<close>, \<open>verifySignature\<close>: the \<^verbatim>\<open>nostr-tools\<close> checks, which may throw;
  \<^item> \<open>URL_host\<close>: \<^verbatim>\<open>new URL(v).host\<close>, \<open>None\<close> when the constructor throws.
\<close>

record env =
  collateralRequired :: int
  filterNipKind :: "int list"
  proxyUrl_host :: string
  bot_publicKey :: js
  JSON_parse :: "string \<Rightarrow> js option"
  validateEvent :: "js \<Rightarrow> bool result"
  verifySignature :: "js \<Rightarrow> bool result"
  URL_host :: "js \<Rightarrow> string option"

section \<open>validateAuthEvent\<close>

text \<open>
  \<^verbatim>\<open>event.tags.find(([name]) => name === tag)\<close>: the first tag whose first element
  is the name, \<^verbatim>\<open>undefined\<close> when there is none; a tag that is not iterable raises.
\<close>

fun find_tag :: "string \<Rightarrow> js list \<Rightarrow> js result" where
  "find_tag name [] = Inr JUndefined"
| "find_tag name (t # ts) =
     (case destructure t 0 of
        Inl e \<Rightarrow> Inl e
      | Inr n \<Rightarrow> if n = JStr name then Inr t else find_tag name ts)"

text \<open>
  \<^verbatim>\<open>const [, value] = event.tags.find(...)\<close>. Only an array has \<^verbatim>\<open>find\<close>; calling it
  on anything else, and destructuring \<^verbatim>\<open>undefined\<close>, raise \<^verbatim>\<open>TypeError\<close>.
\<close>

definition tag_value :: "js \<Rightarrow> string \<Rightarrow> js result" where
  "tag_value event name =
     (case get event ''tags'' of
        Inl e \<Rightarrow> Inl e
      | Inr (JArr ts) \<Rightarrow>
          (case find_tag name ts of
             Inl e \<Rightarrow> Inl e
           | Inr found \<Rightarrow> destructure found 1)
      | Inr other \<Rightarrow> Inl TypeError)"

text \<open>The body of the \<^verbatim>\<open>try\<close> block of \<^verbatim>\<open>validateAuthEvent\<close> (lines 52 to 64).\<close>

definition validateAuthEvent_try :: "env \<Rightarrow> js \<Rightarrow> string \<Rightarrow> bool result" where
  "validateAuthEvent_try cfg event authChallenge =
     (case validateEvent cfg event of
        Inl e \<Rightarrow> Inl e
      | Inr valid \<Rightarrow>
          if valid then
            (case verifySignature cfg event of
               Inl e \<Rightarrow> Inl e
             | Inr signed \<Rightarrow>
                 if signed then
                   (case tag_value event ''challenge'' of
                      Inl e \<Rightarrow> Inl e
                    | Inr challengeTag \<Rightarrow>
                        if truthy challengeTag \<and> challengeTag = JStr authChallenge then
                          (case tag_value event ''relay'' of
                             Inl e \<Rightarrow> Inl e
                           | Inr relayTag \<Rightarrow>
                               if truthy relayTag then
                                 (case URL_host cfg relayTag of
                                    None \<Rightarrow> Inl TypeError
                                  | Some host \<Rightarrow>
                                      if host = proxyUrl_host cfg then Inr True
                                      else Inr False)
                               else Inr False)
                        else Inr False)
                 else Inr False)
          else Inr False)"

text \<open>The function: the \<^verbatim>\<open>catch\<close> logs and returns \<^verbatim>\<open>false\<close> (lines 65 to 68).\<close>

definition validateAuthEvent :: "env \<Rightarrow> js \<Rightarrow> string \<Rightarrow> bool result" where
  "validateAuthEvent cfg event authChallenge =
     try_catch (validateAuthEvent_try cfg event authChallenge) (\<lambda>e. Inr False)"

section \<open>Connections\<close>

text \<open>
  A message as the \<^verbatim>\<open>ws\<close> library hands it to a \<^verbatim>\<open>message\<close> listener: a string
  (text messages of the library up to version 7) or a \<^verbatim>\<open>Buffer\<close> (version 8).
  Every \<^verbatim>\<open>Buffer\<close> is truthy; the empty string is not.
\<close>

datatype data = Str string | Buf string

fun payload :: "data \<Rightarrow> string" where
  "payload (Str s) = s"
| "payload (Buf s) = s"

fun truthy_data :: "data \<Rightarrow> bool" where
  "truthy_data (Str s) = (s \<noteq> [])"
| "truthy_data (Buf s) = True"

datatype readyState = CONNECTING | OPEN | CLOSING | CLOSED

text \<open>
  One connection: the \<^verbatim>\<open>clientObj\<close> of the upgrade handler, the client socket
  \<^verbatim>\<open>ws\<close> with the properties the proxy sets on it, the socket \<^verbatim>\<open>relay\<close>, the module's
  registry \<^verbatim>\<open>clients\<close> (its keys), and what the runtime holds for the connection: the
  timers and the listener it created, and the continuations suspended at an
  \<^verbatim>\<open>await\<close>. A timer, listener or continuation closes over \<^verbatim>\<open>event.pubkey\<close>, which
  is the value kept here.
  The record is a connection whose upgrade has completed, so that \<^verbatim>\<open>getWs()\<close> and
  \<^verbatim>\<open>getRelay()\<close> return its two sockets.
  \<^item> \<open>timeout\<close>: the interval of line 89 is running;
  \<^item> \<open>ws_close_throws\<close>, \<open>relay_close_throws\<close>: whether \<^verbatim>\<open>close()\<close> raises on that socket;
  \<^item> \<open>authTimer\<close>: the timer of line 211 has not fired yet;
  \<^item> \<open>paymentTimer\<close>: the timer of line 167 is pending;
  \<^item> \<open>paidListener\<close>: the \<^verbatim>\<open>process.once\<close> listener of line 179 is registered;
  \<^item> \<open>awaitBalance\<close>, \<open>awaitDM\<close>, \<open>awaitExpiryBalance\<close>: the handler is suspended
    at line 147, at line 155, or the payment timer's callback at line 169.
\<close>

record conn =
  id_num :: nat
  queueUpstream :: "data list"
  queueDownstream :: "data list"
  timeout :: bool
  closed :: bool
  authenticated :: bool
  funded :: bool
  authChallenge :: string
  ws_readyState :: readyState
  ws_close_throws :: bool
  relay_readyState :: readyState
  relay_close_throws :: bool
  clients :: "nat set"
  authTimer :: bool
  paymentTimer :: "js option"
  paidListener :: "js option"
  awaitBalance :: "js option"
  awaitDM :: "js option"
  awaitExpiryBalance :: "js option"

text \<open>
  What a callback does to the outside, in order: the calls on the two sockets, on the
  collaborators and on the runtime. Console output is left out but for the two
  \<^verbatim>\<open>catch\<close> blocks of \<^verbatim>\<open>closeConnection\<close>.
\<close>

datatype action =
    RelaySend data
  | WsSend data
  | ProcessSpam js js js
  | ClearInterval
  | DeleteClient nat
  | WsClose
  | RelayClose
  | CaughtWsClose
  | CaughtRelayClose
  | GetBalanceInSats js
  | AskForCollateral js
  | SetPaymentTimeout js
  | ProcessOnce js
  | ClearPaymentTimeout

section \<open>closeConnection\<close>

text \<open>\<^verbatim>\<open>socket.close()\<close>: the call, and whether it raised.\<close>

definition socket_close :: "action \<Rightarrow> bool \<Rightarrow> (action list) result" where
  "socket_close call throws = (if throws then Inl LibraryError else Inr [call])"

text \<open>
  Lines 218 to 240. The result is the connection after the call and what the call
  did; \<open>Inl\<close> would be an exception leaving the function.
\<close>

definition closeConnection :: "conn \<Rightarrow> (conn \<times> action list) result" where
  "closeConnection c =
     (if closed c then Inr (c, [])
      else
        let c1 = c\<lparr>timeout := False, clients := clients c - {id_num c}, closed := True\<rparr> in
        case try_catch (socket_close WsClose (ws_close_throws c1))
                       (\<lambda>e. Inr [WsClose, CaughtWsClose]) of
          Inl e \<Rightarrow> Inl e
        | Inr t1 \<Rightarrow>
            (case try_catch (socket_close RelayClose (relay_close_throws c1))
                            (\<lambda>e. Inr [RelayClose, CaughtRelayClose]) of
               Inl e \<Rightarrow> Inl e
             | Inr t2 \<Rightarrow> Inr (c1, [ClearInterval, DeleteClient (id_num c)] @ t1 @ t2)))"

section \<open>drainMessageQueue\<close>

text \<open>\<^verbatim>\<open>Array.prototype.pop\<close>: the last element and the array without it.\<close>

definition pop :: "'a list \<Rightarrow> ('a \<times> 'a list) option" where
  "pop xs = (if xs = [] then None else Some (last xs, butlast xs))"

text \<open>
  The first conditional of a turn of the upstream loop (lines 254 to 261), given
  \<^verbatim>\<open>ws.funded\<close>: the variable \<^verbatim>\<open>event\<close> after it (declared in the turn, so
  \<^verbatim>\<open>undefined\<close> until assigned), and whether the frame was pushed to
  \<^verbatim>\<open>reAddUpstream\<close>.
\<close>

definition defer_check :: "env \<Rightarrow> bool \<Rightarrow> data \<Rightarrow> (js \<times> bool) result" where
  "defer_check cfg is_funded d =
     (if is_funded then Inr (JUndefined, False)
      else
        (case JSON_parse cfg (payload d) of
           None \<Rightarrow> Inl SyntaxError
         | Some event \<Rightarrow>
             Inr (event,
                  truthy event \<and> get event ''0'' \<noteq> Inr (JStr ''REQ'')
                    \<and> get event ''0'' \<noteq> Inr (JStr ''CLOSE''))))"

text \<open>
  The condition of the second conditional (lines 263 to 266) once \<^verbatim>\<open>ws.funded\<close> is
  true, \<^verbatim>\<open>event || ((event = JSON.parse(data)) && event[0] === "EVENT")\<close>: the
  variable \<^verbatim>\<open>event\<close> after it, and whether the body runs.
\<close>

definition is_publication :: "env \<Rightarrow> data \<Rightarrow> js \<Rightarrow> (js \<times> bool) result" where
  "is_publication cfg d event =
     (if truthy event then Inr (event, True)
      else
        (case JSON_parse cfg (payload d) of
           None \<Rightarrow> Inl SyntaxError
         | Some parsed \<Rightarrow>
             Inr (parsed, truthy parsed \<and> get parsed ''0'' = Inr (JStr ''EVENT''))))"

text \<open>
  The body of the second conditional (lines 267 to 272): the call of
  \<^verbatim>\<open>processSpam\<close>, when \<^verbatim>\<open>filterNipKind\<close> includes the kind of the event.
\<close>

definition spam_filter :: "env \<Rightarrow> js \<Rightarrow> (action list) result" where
  "spam_filter cfg event =
     (case get event ''1'' of
        Inl err \<Rightarrow> Inl err
      | Inr e \<Rightarrow>
          (case get e ''kind'' of
             Inl err \<Rightarrow> Inl err
           | Inr (JNum k) \<Rightarrow>
               if k \<in> set (filterNipKind cfg) then
                 (case (get e ''pubkey'', get e ''content'', get e ''id'') of
                    (Inr p, Inr t, Inr i) \<Rightarrow> Inr [ProcessSpam p t i]
                  | other \<Rightarrow> Inl TypeError)
               else Inr []
           | Inr other \<Rightarrow> Inr []))"

text \<open>The second conditional (lines 263 to 273).\<close>

definition spam_check :: "env \<Rightarrow> bool \<Rightarrow> data \<Rightarrow> js \<Rightarrow> (action list) result" where
  "spam_check cfg is_funded d event =
     (if is_funded then
        (case is_publication cfg d event of
           Inl err \<Rightarrow> Inl err
         | Inr (event', enter) \<Rightarrow> if enter then spam_filter cfg event' else Inr [])
      else Inr [])"

text \<open>
  One turn of the upstream loop with the frame it popped (lines 252 to 275): whether
  the frame went to \<^verbatim>\<open>reAddUpstream\<close>, and the calls made, or the exception raised.
  \<^verbatim>\<open>relay.send(data)\<close> at line 275 is the last statement of the turn, after both
  conditionals.
\<close>

definition upstream_turn :: "env \<Rightarrow> bool \<Rightarrow> data \<Rightarrow> (bool \<times> action list) result" where
  "upstream_turn cfg is_funded d =
     (case defer_check cfg is_funded d of
        Inl err \<Rightarrow> Inl err
      | Inr (event, again) \<Rightarrow>
          (case spam_check cfg is_funded d event of
             Inl err \<Rightarrow> Inl err
           | Inr calls \<Rightarrow> Inr (again, calls @ [RelaySend d])))"

text \<open>
  The loop of lines 251 to 276 over the array \<^verbatim>\<open>queueUpstream\<close>, with
  \<^verbatim>\<open>reAddUpstream\<close> and the calls made so far. It ends when \<^verbatim>\<open>pop\<close> returns a
  falsy value: \<^verbatim>\<open>undefined\<close> on the empty array, or a frame that is the empty
  string, which is then dropped.
\<close>

function upstream_loop ::
  "env \<Rightarrow> bool \<Rightarrow> data list \<Rightarrow> data list \<Rightarrow> action list
     \<Rightarrow> data list \<times> data list \<times> action list \<times> error option" where
  "upstream_loop cfg is_funded q reAdd tr =
     (case pop q of
        None \<Rightarrow> (q, reAdd, tr, None)
      | Some (d, q') \<Rightarrow>
          if truthy_data d then
            (case upstream_turn cfg is_funded d of
               Inl e \<Rightarrow> (q', reAdd, tr, Some e)
             | Inr (again, calls) \<Rightarrow>
                 upstream_loop cfg is_funded q'
                   (if again then reAdd @ [d] else reAdd) (tr @ calls))
          else (q', reAdd, tr, None))"
  by pat_completeness auto
termination
  by (relation "measure (\<lambda>(cfg, is_funded, q, reAdd, tr). length q)")
     (auto simp: pop_def split: if_splits)

text \<open>The loop of lines 281 to 283 over \<^verbatim>\<open>queueDownstream\<close>.\<close>

function downstream_loop :: "data list \<Rightarrow> action list \<Rightarrow> data list \<times> action list" where
  "downstream_loop q tr =
     (case pop q of
        None \<Rightarrow> (q, tr)
      | Some (d, q') \<Rightarrow>
          if truthy_data d then downstream_loop q' (tr @ [WsSend d]) else (q', tr))"
  by pat_completeness auto
termination
  by (relation "measure (\<lambda>(q, tr). length q)") (auto simp: pop_def split: if_splits)

text \<open>
  Lines 242 to 284: the connection after the tick, the calls made, and the exception
  that left the function, if any. An exception in the upstream loop leaves
  \<^verbatim>\<open>queueUpstream\<close> as the loop had it, without the frames of \<^verbatim>\<open>reAddUpstream\<close>.
\<close>

definition upstream_phase :: "env \<Rightarrow> conn \<Rightarrow> conn \<times> action list \<times> error option" where
  "upstream_phase cfg c =
     (if relay_readyState c = OPEN then
        (case upstream_loop cfg (funded c) (queueUpstream c) [] [] of
           (q, reAdd, tr, None) \<Rightarrow> (c\<lparr>queueUpstream := q @ reAdd\<rparr>, tr, None)
         | (q, reAdd, tr, Some e) \<Rightarrow> (c\<lparr>queueUpstream := q\<rparr>, tr, Some e))
      else (c, [], None))"

definition downstream_phase :: "conn \<Rightarrow> conn \<times> action list" where
  "downstream_phase c =
     (if ws_readyState c = OPEN then
        (case downstream_loop (queueDownstream c) [] of
           (q, tr) \<Rightarrow> (c\<lparr>queueDownstream := q\<rparr>, tr))
      else (c, []))"

definition drainMessageQueue :: "env \<Rightarrow> conn \<Rightarrow> conn \<times> action list \<times> error option" where
  "drainMessageQueue cfg c =
     (if authenticated c then
        (case upstream_phase cfg c of
           (c1, tr1, Some e) \<Rightarrow> (c1, tr1, Some e)
         | (c1, tr1, None) \<Rightarrow>
             (case downstream_phase c1 of (c2, tr2) \<Rightarrow> (c2, tr1 @ tr2, None)))
      else (c, [], None))"

section \<open>The callbacks of a connection\<close>

text \<open>\<^verbatim>\<open>s.includes(p)\<close>: \<open>p\<close> occurs in \<open>s\<close>.\<close>

fun includes_str :: "string \<Rightarrow> string \<Rightarrow> bool" where
  "includes_str [] p = (p = [])"
| "includes_str (x # xs) p = (take (length p) (x # xs) = p \<or> includes_str xs p)"

definition auth_literal :: string where
  \<open>auth_literal = ''"AUTH"''\<close>

text \<open>
  \<^verbatim>\<open>balance && balance >= collateralRequired\<close> (lines 148 and 171). The balance is
  what \<^verbatim>\<open>getBalanceInSats\<close> resolved to: a number, or \<open>None\<close> for \<^verbatim>\<open>undefined\<close>
  or \<^verbatim>\<open>null\<close>.
\<close>

definition sufficient :: "env \<Rightarrow> int option \<Rightarrow> bool" where
  "sufficient cfg balance =
     (case balance of None \<Rightarrow> False | Some b \<Rightarrow> b \<noteq> 0 \<and> collateralRequired cfg \<le> b)"

text \<open>A call of \<^verbatim>\<open>closeConnection(clientObj)\<close> that ends a callback.\<close>

definition close_and_return :: "conn \<Rightarrow> conn \<times> action list \<times> error option" where
  "close_and_return c =
     (case closeConnection c of
        Inl e \<Rightarrow> (c, [], Some e)
      | Inr (c', tr) \<Rightarrow> (c', tr, None))"

definition enqueue_upstream :: "data \<Rightarrow> conn \<Rightarrow> conn" where
  "enqueue_upstream d c = c\<lparr>queueUpstream := queueUpstream c @ [d]\<rparr>"

text \<open>
  Lines 129 to 147: the handler of a client message from the \<^verbatim>\<open>AUTH\<close> event it
  received up to its first \<^verbatim>\<open>await\<close>.
\<close>

definition on_auth :: "env \<Rightarrow> js \<Rightarrow> conn \<Rightarrow> conn \<times> action list \<times> error option" where
  "on_auth cfg event c =
     (case (if typeof_object event then validateAuthEvent cfg event (authChallenge c)
            else Inr False) of
        Inl e \<Rightarrow> (c, [], Some e)
      | Inr valid \<Rightarrow>
          if valid then
            (case get event ''pubkey'' of
               Inl e \<Rightarrow> (c, [], Some e)
             | Inr pubkey \<Rightarrow>
                 if strict_eq pubkey (bot_publicKey cfg) then
                   (c\<lparr>authenticated := True, funded := True\<rparr>, [], None)
                 else
                   (c\<lparr>authenticated := True, awaitBalance := Some pubkey\<rparr>,
                    [GetBalanceInSats pubkey], None))
          else close_and_return c)"

text \<open>Lines 119 to 128 and 188: the handler of a client message.\<close>

definition on_message :: "env \<Rightarrow> data \<Rightarrow> conn \<Rightarrow> conn \<times> action list \<times> error option" where
  "on_message cfg d c =
     (if \<not> authenticated c \<and> includes_str (payload d) auth_literal then
        (case JSON_parse cfg (payload d) of
           None \<Rightarrow> (c, [], Some SyntaxError)
         | Some msg \<Rightarrow>
             if truthy msg \<and> get msg ''0'' = Inr (JStr ''AUTH'') then
               (case get msg ''1'' of
                  Inl e \<Rightarrow> (c, [], Some e)
                | Inr event \<Rightarrow> on_auth cfg event c)
             else (enqueue_upstream d c, [], None))
      else (enqueue_upstream d c, [], None))"

text \<open>
  Lines 148 to 155: the handler resumes with the balance. Nothing runs when no
  handler is suspended there.
\<close>

definition on_balance :: "env \<Rightarrow> int option \<Rightarrow> conn \<Rightarrow> conn \<times> action list \<times> error option" where
  "on_balance cfg balance c =
     (case awaitBalance c of
        None \<Rightarrow> (c, [], None)
      | Some pubkey \<Rightarrow>
          if sufficient cfg balance then
            (c\<lparr>awaitBalance := None, funded := True\<rparr>, [], None)
          else
            (c\<lparr>awaitBalance := None, awaitDM := Some pubkey\<rparr>, [AskForCollateral pubkey], None))"

text \<open>Lines 163 to 185: the handler resumes with \<^verbatim>\<open>didSendDM\<close>.\<close>

definition on_dm :: "bool \<Rightarrow> conn \<Rightarrow> conn \<times> action list \<times> error option" where
  "on_dm didSendDM c =
     (case awaitDM c of
        None \<Rightarrow> (c, [], None)
      | Some pubkey \<Rightarrow>
          if didSendDM then
            (c\<lparr>awaitDM := None, paymentTimer := Some pubkey, paidListener := Some pubkey\<rparr>,
             [SetPaymentTimeout pubkey, ProcessOnce pubkey], None)
          else close_and_return (c\<lparr>awaitDM := None\<rparr>))"

text \<open>Lines 167 to 169: the payment timer fires.\<close>

definition on_payment_timer :: "conn \<Rightarrow> conn \<times> action list \<times> error option" where
  "on_payment_timer c =
     (case paymentTimer c of
        None \<Rightarrow> (c, [], None)
      | Some pubkey \<Rightarrow>
          if funded c then (c\<lparr>paymentTimer := None\<rparr>, [], None)
          else
            (c\<lparr>paymentTimer := None, awaitExpiryBalance := Some pubkey\<rparr>,
             [GetBalanceInSats pubkey], None))"

text \<open>Lines 171 to 176: the timer's callback resumes with the balance.\<close>

definition on_expiry_balance ::
  "env \<Rightarrow> int option \<Rightarrow> conn \<Rightarrow> conn \<times> action list \<times> error option" where
  "on_expiry_balance cfg balance c =
     (case awaitExpiryBalance c of
        None \<Rightarrow> (c, [], None)
      | Some pubkey \<Rightarrow>
          if sufficient cfg balance then
            (c\<lparr>awaitExpiryBalance := None, funded := True\<rparr>, [], None)
          else close_and_return (c\<lparr>awaitExpiryBalance := None\<rparr>))"

text \<open>
  Lines 40 to 44 and 179 to 183: the webhook emits the process event named after a
  public key; the listener of the connection runs, once, when it was registered for
  that key. Clearing a timer that has fired does nothing.
\<close>

definition on_paid :: "js \<Rightarrow> conn \<Rightarrow> conn \<times> action list \<times> error option" where
  "on_paid pubKey c =
     (if paidListener c = Some pubKey then
        (c\<lparr>paidListener := None, funded := True, paymentTimer := None\<rparr>,
         [ClearPaymentTimeout], None)
      else (c, [], None))"

text \<open>Lines 211 to 215: the authentication timer fires.\<close>

definition on_auth_timer :: "conn \<Rightarrow> conn \<times> action list \<times> error option" where
  "on_auth_timer c =
     (if authTimer c then
        (if authenticated c then (c\<lparr>authTimer := False\<rparr>, [], None)
         else close_and_return (c\<lparr>authTimer := False\<rparr>))
      else (c, [], None))"

text \<open>Lines 89 to 91: the interval calls \<^verbatim>\<open>drainMessageQueue\<close> while it runs.\<close>

definition on_interval :: "env \<Rightarrow> conn \<Rightarrow> conn \<times> action list \<times> error option" where
  "on_interval cfg c = (if timeout c then drainMessageQueue cfg c else (c, [], None))"

text \<open>
  Everything that can happen to a connection once it is set up: the callbacks the
  upgrade handler registers, the resumptions of the suspended ones, and the library
  moving a socket to another state (the last two events, which run no code of the
  proxy). A rejected balance lookup ends the suspended callback with that rejection.
\<close>

datatype event =
    ClientMessage data
  | BalanceResolved "int option"
  | BalanceRejected
  | DMResolved bool
  | PaymentTimerFired
  | ExpiryBalanceResolved "int option"
  | ExpiryBalanceRejected
  | PaidEmitted js
  | AuthTimerFired
  | DrainTick
  | RelayMessage data
  | RelayClosed
  | ClientClosed
  | RelaySocketChanged readyState bool
  | ClientSocketChanged readyState bool

fun step :: "env \<Rightarrow> event \<Rightarrow> conn \<Rightarrow> conn \<times> action list \<times> error option" where
  "step cfg (ClientMessage d) c = on_message cfg d c"
| "step cfg (BalanceResolved b) c = on_balance cfg b c"
| "step cfg BalanceRejected c =
     (case awaitBalance c of
        None \<Rightarrow> (c, [], None)
      | Some pubkey \<Rightarrow> (c\<lparr>awaitBalance := None\<rparr>, [], Some LibraryError))"
| "step cfg (DMResolved ok) c = on_dm ok c"
| "step cfg PaymentTimerFired c = on_payment_timer c"
| "step cfg (ExpiryBalanceResolved b) c = on_expiry_balance cfg b c"
| "step cfg ExpiryBalanceRejected c =
     (case awaitExpiryBalance c of
        None \<Rightarrow> (c, [], None)
      | Some pubkey \<Rightarrow> (c\<lparr>awaitExpiryBalance := None\<rparr>, [], Some LibraryError))"
| "step cfg (PaidEmitted k) c = on_paid k c"
| "step cfg AuthTimerFired c = on_auth_timer c"
| "step cfg DrainTick c = on_interval cfg c"
| "step cfg (RelayMessage d) c = (c\<lparr>queueDownstream := queueDownstream c @ [d]\<rparr>, [], None)"
| "step cfg RelayClosed c = close_and_return c"
| "step cfg ClientClosed c = close_and_return c"
| "step cfg (RelaySocketChanged s throws) c =
     (c\<lparr>relay_readyState := s, relay_close_throws := throws\<rparr>, [], None)"
| "step cfg (ClientSocketChanged s throws) c =
     (c\<lparr>ws_readyState := s, ws_close_throws := throws\<rparr>, [], None)"

text \<open>
  A run: the events in order, each callback to its end before the next starts. An
  exception that leaves a callback is reported by the runtime and the next event
  finds the connection as the callback left it (where the runtime stops the process
  instead, the run has no next event).
\<close>

fun run :: "env \<Rightarrow> event list \<Rightarrow> conn \<Rightarrow> conn \<times> action list" where
  "run cfg [] c = (c, [])"
| "run cfg (e # es) c =
     (case step cfg e c of
        (c1, tr1, err) \<Rightarrow> (case run cfg es c1 of (c2, tr2) \<Rightarrow> (c2, tr1 @ tr2)))"

text \<open>
  Lines 73 to 92, 110 and 201 to 216: the connection as the upgrade leaves it, with
  the challenge \<^verbatim>\<open>uuidV4()\<close> returned and the registry as it was.
\<close>

definition new_connection :: "nat \<Rightarrow> string \<Rightarrow> nat set \<Rightarrow> conn" where
  "new_connection n challenge registry =
     \<lparr>id_num = n, queueUpstream = [], queueDownstream = [], timeout = True, closed = False,
      authenticated = False, funded = False, authChallenge = challenge,
      ws_readyState = OPEN, ws_close_throws = False,
      relay_readyState = CONNECTING, relay_close_throws = False,
      clients = insert n registry, authTimer = True, paymentTimer = None,
      paidListener = None, awaitBalance = None, awaitDM = None,
      awaitExpiryBalance = None\<rparr>"

section \<open>What a trace sent where\<close>

fun to_relay :: "action list \<Rightarrow> data list" where
  "to_relay [] = []"
| "to_relay (RelaySend d # tr) = d # to_relay tr"
| "to_relay (a # tr) = to_relay tr"

fun to_client :: "action list \<Rightarrow> data list" where
  "to_client [] = []"
| "to_client (WsSend d # tr) = d # to_client tr"
| "to_client (a # tr) = to_client tr"

text \<open>The calls of the payment path: the prompt, the timer and the waiter.\<close>

fun dm_path :: "action \<Rightarrow> bool" where
  "dm_path (AskForCollateral k) = True"
| "dm_path (SetPaymentTimeout k) = True"
| "dm_path (ProcessOnce k) = True"
| "dm_path a = False"

fun balance_lookup :: "action \<Rightarrow> bool" where
  "balance_lookup (GetBalanceInSats k) = True"
| "balance_lookup a = False"

text \<open>The calls of the upstream loop, and the calls of a drain tick.\<close>

fun upstream_call :: "action \<Rightarrow> bool" where
  "upstream_call (RelaySend d) = True"
| "upstream_call (ProcessSpam p t i) = True"
| "upstream_call a = False"

fun forwarding :: "action \<Rightarrow> bool" where
  "forwarding (RelaySend d) = True"
| "forwarding (ProcessSpam p t i) = True"
| "forwarding (WsSend d) = True"
| "forwarding a = False"

text \<open>The calls of \<^verbatim>\<open>closeConnection\<close>.\<close>

fun teardown_call :: "action \<Rightarrow> bool" where
  "teardown_call ClearInterval = True"
| "teardown_call (DeleteClient n) = True"
| "teardown_call WsClose = True"
| "teardown_call RelayClose = True"
| "teardown_call CaughtWsClose = True"
| "teardown_call CaughtRelayClose = True"
| "teardown_call a = False"

section \<open>A concrete configuration and concrete frames\<close>

definition event_frame :: data where
  \<open>event_frame = Str ''["EVENT",{"id":"e1","pubkey":"alice","kind":1,"content":"gm"}]''\<close>

definition event_json :: js where
  "event_json =
     JArr [JStr ''EVENT'',
           JObj [(''id'', JStr ''e1''), (''pubkey'', JStr ''alice''), (''kind'', JNum 1),
                 (''content'', JStr ''gm'')]]"

definition second_event_frame :: data where
  \<open>second_event_frame = Str ''["EVENT",{"id":"e2","pubkey":"alice","kind":7,"content":"+"}]''\<close>

definition second_event_json :: js where
  "second_event_json =
     JArr [JStr ''EVENT'',
           JObj [(''id'', JStr ''e2''), (''pubkey'', JStr ''alice''), (''kind'', JNum 7),
                 (''content'', JStr ''+'')]]"

definition req_frame :: data where
  \<open>req_frame = Str ''["REQ","sub1",{}]''\<close>

definition req_json :: js where
  "req_json = JArr [JStr ''REQ'', JStr ''sub1'', JObj []]"

definition auth_event :: "string \<Rightarrow> js" where
  "auth_event pubkey =
     JObj [(''pubkey'', JStr pubkey), (''kind'', JNum 22242),
           (''tags'', JArr [JArr [JStr ''relay'', JStr ''wss://proxy.example''],
                            JArr [JStr ''challenge'', JStr ''c1'']])]"

definition auth_frame :: data where
  \<open>auth_frame = Str (''["AUTH",{"pubkey":"alice","kind":22242,'' @
     ''"tags":[["relay","wss://proxy.example"],["challenge","c1"]]}]'')\<close>

definition bot_auth_frame :: data where
  \<open>bot_auth_frame = Str (''["AUTH",{"pubkey":"bot","kind":22242,'' @
     ''"tags":[["relay","wss://proxy.example"],["challenge","c1"]]}]'')\<close>

definition notice_a :: data where
  \<open>notice_a = Str ''["NOTICE","a"]''\<close>

definition notice_b :: data where
  \<open>notice_b = Str ''["NOTICE","b"]''\<close>

text \<open>\<^verbatim>\<open>JSON.parse\<close> on the frames above; any other text is taken not to parse.\<close>

definition example_parse :: "string \<Rightarrow> js option" where
  "example_parse s =
     (if s = payload event_frame then Some event_json
      else if s = payload second_event_frame then Some second_event_json
      else if s = payload req_frame then Some req_json
      else if s = payload auth_frame then Some (JArr [JStr ''AUTH'', auth_event ''alice''])
      else if s = payload bot_auth_frame then Some (JArr [JStr ''AUTH'', auth_event ''bot''])
      else None)"

definition example_env :: env where
  "example_env =
     \<lparr>collateralRequired = 10, filterNipKind = [1], proxyUrl_host = ''proxy.example'',
      bot_publicKey = JStr ''bot'', JSON_parse = example_parse,
      validateEvent = (\<lambda>e. Inr True), verifySignature = (\<lambda>e. Inr True),
      URL_host = (\<lambda>v. if v = JStr ''wss://proxy.example'' then Some ''proxy.example''
                       else None)\<rparr>"

text \<open>
  Connection 1 with its relay link open, and the same connection once a client other
  than the operator has authenticated, before and after it is funded.
\<close>

definition fresh :: conn where
  "fresh = (new_connection 1 ''c1'' {})\<lparr>relay_readyState := OPEN\<rparr>"

definition unfunded :: conn where
  "unfunded = fresh\<lparr>authenticated := True\<rparr>"

definition funded_conn :: conn where
  "funded_conn = fresh\<lparr>authenticated := True, funded := True\<rparr>"

text \<open>The same configuration with no collateral required.\<close>

definition free_env :: env where
  "free_env = example_env\<lparr>collateralRequired := 0\<rparr>"

text \<open>
  Connection 1 after the client's \<^verbatim>\<open>AUTH\<close> frame, suspended at the balance lookup;
  after a balance of 0 and a delivered prompt, waiting for the payment; and after the
  client has then closed its socket.
\<close>

definition awaiting_balance :: conn where
  "awaiting_balance = fst (step example_env (ClientMessage auth_frame) fresh)"

definition awaiting_payment :: conn where
  "awaiting_payment =
     fst (run example_env [BalanceResolved (Some 0), DMResolved True] awaiting_balance)"

definition closed_awaiting_payment :: conn where
  "closed_awaiting_payment = fst (step example_env ClientClosed awaiting_payment)"

section \<open>Invariants of a connection\<close>

text \<open>
  Nothing of the admission is pending on a connection that has not authenticated,
  and the handler is suspended at one \<^verbatim>\<open>await\<close> at most.
\<close>

definition connection_invariant :: "conn \<Rightarrow> bool" where
  "connection_invariant c =
     ((authenticated c \<or> (awaitBalance c = None \<and> awaitDM c = None \<and> paymentTimer c = None)) \<and>
      (awaitBalance c = None \<or> awaitDM c = None))"

text \<open>
  The connection has not authenticated, or its handler still waits for the balance
  of line 147.
\<close>

definition pre_admission :: "conn \<Rightarrow> bool" where
  "pre_admission c = (awaitBalance c \<noteq> None \<or> \<not> authenticated c)"

text \<open>The connection has authenticated and its handler is suspended nowhere.\<close>

definition admitted :: "conn \<Rightarrow> bool" where
  "admitted c = (authenticated c \<and> awaitBalance c = None \<and> awaitDM c = None)"

section \<open>The drain loops\<close>

declare upstream_loop.simps [simp del] downstream_loop.simps [simp del]

lemma pop_Nil: "pop [] = None"
  by (simp add: pop_def)

lemma pop_snoc: "pop (xs @ [x]) = Some (x, xs)"
  by (simp add: pop_def)

lemma to_client_append: "to_client (xs @ ys) = to_client xs @ to_client ys"
  by (induction xs rule: to_client.induct) auto

lemma to_client_WsSend: "to_client (map WsSend ds) = ds"
  by (induction ds) auto

lemma downstream_loop_all:
  "\<forall>d\<in>set q. truthy_data d \<Longrightarrow> downstream_loop q tr = ([], tr @ map WsSend (rev q))"
proof (induction q arbitrary: tr rule: rev_induct)
  case Nil
  show ?case by (subst downstream_loop.simps) (simp add: pop_Nil)
next
  case (snoc d q)
  then have "downstream_loop q (tr @ [WsSend d]) = ([], (tr @ [WsSend d]) @ map WsSend (rev q))"
    by simp
  with snoc.prems show ?case
    by (subst downstream_loop.simps) (simp add: pop_snoc)
qed

lemma downstream_loop_trace:
  "\<exists>ds. snd (downstream_loop q tr) = tr @ map WsSend ds"
proof (induction q arbitrary: tr rule: rev_induct)
  case Nil
  show ?case by (subst downstream_loop.simps) (simp add: pop_Nil)
next
  case (snoc d q)
  show ?case
  proof (cases "truthy_data d")
    case True
    from snoc.IH [of "tr @ [WsSend d]"] obtain ds
      where "snd (downstream_loop q (tr @ [WsSend d])) = (tr @ [WsSend d]) @ map WsSend ds" ..
    then have "snd (downstream_loop q (tr @ [WsSend d])) = tr @ map WsSend (d # ds)" by simp
    with True show ?thesis
      by (subst downstream_loop.simps) (auto simp add: pop_snoc simp del: map_eq_Cons_conv list.map)
  next
    case False
    then have "snd (downstream_loop (q @ [d]) tr) = tr @ map WsSend []"
      by (subst downstream_loop.simps) (simp add: pop_snoc)
    then show ?thesis by blast
  qed
qed

lemma spam_filter_calls: "spam_filter cfg event = Inr calls \<Longrightarrow> list_all upstream_call calls"
  by (auto simp: spam_filter_def split: sum.splits js.splits if_splits)

lemma spam_check_calls:
  "spam_check cfg f d event = Inr calls \<Longrightarrow> list_all upstream_call calls"
  by (auto simp: spam_check_def spam_filter_calls split: sum.splits if_splits)

lemma upstream_turn_calls:
  "upstream_turn cfg f d = Inr (again, calls) \<Longrightarrow> list_all upstream_call calls"
  by (auto simp: upstream_turn_def spam_check_calls split: sum.splits)

lemma upstream_loop_trace:
  "\<exists>calls. fst (snd (snd (upstream_loop cfg f q reAdd tr))) = tr @ calls \<and> list_all upstream_call calls"
proof (induction cfg f q reAdd tr rule: upstream_loop.induct)
  case (1 cfg f q reAdd tr)
  show ?case
  proof (cases "pop q")
    case None
    then show ?thesis
      by (subst upstream_loop.simps) simp
  next
    case (Some p)
    obtain d q1 where p: "p = (d, q1)" by (cases p)
    show ?thesis
    proof (cases "truthy_data d")
      case False
      with Some p show ?thesis
        by (subst upstream_loop.simps) simp
    next
      case True
      show ?thesis
      proof (cases "upstream_turn cfg f d")
        case (Inl e)
        with Some p True show ?thesis
          by (subst upstream_loop.simps) simp
      next
        case (Inr r)
        obtain again calls where r: "r = (again, calls)" by (cases r)
        from Inr r have c: "list_all upstream_call calls"
          using upstream_turn_calls by blast
        from "1.IH" [OF Some p [symmetric] True Inr r [symmetric]]
        obtain more where
          "fst (snd (snd (upstream_loop cfg f q1 (if again then reAdd @ [d] else reAdd) (tr @ calls))))
             = (tr @ calls) @ more" and m: "list_all upstream_call more"
          by blast
        then have "fst (snd (snd (upstream_loop cfg f q reAdd tr))) = tr @ (calls @ more)"
          using Some p True Inr r by (subst upstream_loop.simps) simp
        moreover from c m have "list_all upstream_call (calls @ more)" by simp
        ultimately show ?thesis by blast
      qed
    qed
  qed
qed

lemma to_client_upstream: "list_all upstream_call tr \<Longrightarrow> to_client tr = []"
  by (induction tr rule: to_client.induct) auto

lemma forwarding_upstream: "list_all upstream_call tr \<Longrightarrow> list_all forwarding tr"
  by (induction tr) (auto elim: upstream_call.elims)

lemma upstream_phase_frame:
  "\<exists>qu tr err. upstream_phase cfg c = (c\<lparr>queueUpstream := qu\<rparr>, tr, err) \<and> list_all upstream_call tr"
proof (cases "relay_readyState c = OPEN")
  case False
  then have "upstream_phase cfg c = (c\<lparr>queueUpstream := queueUpstream c\<rparr>, [], None)
      \<and> list_all upstream_call []"
    by (simp add: upstream_phase_def)
  then show ?thesis by blast
next
  case True
  obtain q reAdd tr err where l: "upstream_loop cfg (funded c) (queueUpstream c) [] [] = (q, reAdd, tr, err)"
    by (metis prod_cases4)
  from upstream_loop_trace [of cfg "funded c" "queueUpstream c" "[]" "[]"] l
  have "list_all upstream_call tr" by simp
  with True l show ?thesis
    by (cases err) (auto simp add: upstream_phase_def)
qed

lemma downstream_phase_frame:
  "\<exists>qd ds. downstream_phase c = (c\<lparr>queueDownstream := qd\<rparr>, map WsSend ds)"
proof (cases "ws_readyState c = OPEN")
  case False
  then have "downstream_phase c = (c\<lparr>queueDownstream := queueDownstream c\<rparr>, map WsSend [])"
    by (simp add: downstream_phase_def)
  then show ?thesis by blast
next
  case True
  from downstream_loop_trace [of "queueDownstream c" "[]"] obtain ds
    where "snd (downstream_loop (queueDownstream c) []) = map WsSend ds" by auto
  with True show ?thesis
    by (cases "downstream_loop (queueDownstream c) []") (auto simp add: downstream_phase_def)
qed

lemma drain_frame:
  "\<exists>qu qd tr err. drainMessageQueue cfg c = (c\<lparr>queueUpstream := qu, queueDownstream := qd\<rparr>, tr, err)
      \<and> list_all forwarding tr"
proof (cases "authenticated c")
  case False
  then have "drainMessageQueue cfg c
     = (c\<lparr>queueUpstream := queueUpstream c, queueDownstream := queueDownstream c\<rparr>, [], None)
     \<and> list_all forwarding []"
    by (simp add: drainMessageQueue_def)
  then show ?thesis by blast
next
  case True
  from upstream_phase_frame obtain qu tr1 err
    where u: "upstream_phase cfg c = (c\<lparr>queueUpstream := qu\<rparr>, tr1, err)"
      and t1: "list_all upstream_call tr1" by blast
  show ?thesis
  proof (cases err)
    case (Some e)
    with True u have "drainMessageQueue cfg c
        = (c\<lparr>queueUpstream := qu, queueDownstream := queueDownstream c\<rparr>, tr1, Some e)"
      by (simp add: drainMessageQueue_def)
    with t1 show ?thesis using forwarding_upstream by blast
  next
    case None
    from downstream_phase_frame [of "c\<lparr>queueUpstream := qu\<rparr>"] obtain qd ds
      where d: "downstream_phase (c\<lparr>queueUpstream := qu\<rparr>)
                 = (c\<lparr>queueUpstream := qu, queueDownstream := qd\<rparr>, map WsSend ds)"
      by auto
    have "list_all forwarding (map WsSend ds)" by (induction ds) auto
    with t1 have "list_all forwarding (tr1 @ map WsSend ds)"
      using forwarding_upstream by simp
    moreover from True u None d have "drainMessageQueue cfg c
        = (c\<lparr>queueUpstream := qu, queueDownstream := qd\<rparr>, tr1 @ map WsSend ds, None)"
      by (simp add: drainMessageQueue_def)
    ultimately show ?thesis by blast
  qed
qed

text \<open>
  On a connection that is not funded, a turn of the upstream loop that raises nothing
  sends the frame to the relay, whatever its type.
\<close>

lemma unfunded_turn_sends:
  "upstream_turn cfg False d = Inr (again, calls) \<Longrightarrow> calls = [RelaySend d]"
  by (auto simp: upstream_turn_def defer_check_def spam_check_def split: option.splits sum.splits)

section \<open>What the callbacks leave alone\<close>

text \<open>
  \<^verbatim>\<open>closeConnection\<close> touches the interval, the registry and \<^verbatim>\<open>closed\<close> only, and a
  drain tick the two queues only; neither calls a collaborator.
\<close>

lemma close_and_return_frame:
  "\<exists>t r cl tr. close_and_return c = (c\<lparr>timeout := t, clients := r, closed := cl\<rparr>, tr, None)
     \<and> list_all (\<lambda>a. \<not> dm_path a \<and> \<not> balance_lookup a) tr"
proof (cases "closed c")
  case True
  then have "close_and_return c = (c\<lparr>timeout := timeout c, clients := clients c, closed := closed c\<rparr>, [], None)
      \<and> list_all (\<lambda>a. \<not> dm_path a \<and> \<not> balance_lookup a) []"
    by (simp add: close_and_return_def closeConnection_def)
  then show ?thesis by blast
next
  case False
  then have "\<exists>tr. close_and_return c = (c\<lparr>timeout := False, clients := clients c - {id_num c}, closed := True\<rparr>, tr, None)
      \<and> list_all (\<lambda>a. \<not> dm_path a \<and> \<not> balance_lookup a) tr"
    by (simp add: close_and_return_def closeConnection_def try_catch_def socket_close_def)
  then show ?thesis by blast
qed

lemma close_and_return_fields:
  "authenticated (fst (close_and_return c)) = authenticated c"
  "funded (fst (close_and_return c)) = funded c"
  "awaitBalance (fst (close_and_return c)) = awaitBalance c"
  "awaitDM (fst (close_and_return c)) = awaitDM c"
  using close_and_return_frame [of c] by auto

lemma drain_fields:
  "authenticated (fst (drainMessageQueue cfg c)) = authenticated c"
  "funded (fst (drainMessageQueue cfg c)) = funded c"
  "awaitBalance (fst (drainMessageQueue cfg c)) = awaitBalance c"
  "awaitDM (fst (drainMessageQueue cfg c)) = awaitDM c"
  using drain_frame [of cfg c] by auto

lemma forwarding_quiet: "forwarding a \<Longrightarrow> \<not> dm_path a \<and> \<not> balance_lookup a"
  by (cases a) auto

lemma drain_quiet:
  "list_all (\<lambda>a. \<not> dm_path a \<and> \<not> balance_lookup a) (fst (snd (drainMessageQueue cfg c)))"
  using drain_frame [of cfg c] forwarding_quiet by (auto simp: list_all_iff)

lemma close_and_return_quiet:
  "list_all (\<lambda>a. \<not> dm_path a \<and> \<not> balance_lookup a) (fst (snd (close_and_return c)))"
  using close_and_return_frame [of c] by auto

section \<open>The flags only ever go up\<close>

lemma on_auth_authenticated: "authenticated c \<Longrightarrow> authenticated (fst (on_auth cfg ev c))"
  by (auto simp: on_auth_def close_and_return_fields split: sum.splits)

lemma on_auth_funded: "funded c \<Longrightarrow> funded (fst (on_auth cfg ev c))"
  by (auto simp: on_auth_def close_and_return_fields split: sum.splits)

lemma step_authenticated: "authenticated c \<Longrightarrow> authenticated (fst (step cfg e c))"
  by (cases e)
     (auto simp: on_message_def enqueue_upstream_def on_balance_def on_dm_def
        on_payment_timer_def on_expiry_balance_def on_paid_def on_auth_timer_def
        on_interval_def close_and_return_fields drain_fields
        split: option.splits)

lemma step_funded: "funded c \<Longrightarrow> funded (fst (step cfg e c))"
  by (cases e)
     (auto simp: on_message_def enqueue_upstream_def on_balance_def on_dm_def
        on_payment_timer_def on_expiry_balance_def on_paid_def on_auth_timer_def
        on_interval_def close_and_return_fields drain_fields on_auth_funded
        split: option.splits sum.splits)

lemma run_Cons_fst: "fst (run cfg (e # es) c) = fst (run cfg es (fst (step cfg e c)))"
  by (simp split: prod.splits)

lemma run_Cons_snd:
  "snd (run cfg (e # es) c) = fst (snd (step cfg e c)) @ snd (run cfg es (fst (step cfg e c)))"
  by (simp split: prod.splits)

lemma run_authenticated: "authenticated c \<Longrightarrow> authenticated (fst (run cfg es c))"
proof (induction es arbitrary: c)
  case Nil
  then show ?case by simp
next
  case (Cons e es)
  from Cons.prems have "authenticated (fst (step cfg e c))" by (rule step_authenticated)
  then have "authenticated (fst (run cfg es (fst (step cfg e c))))" by (rule Cons.IH)
  then show ?case by (simp only: run_Cons_fst)
qed

lemma run_funded: "funded c \<Longrightarrow> funded (fst (run cfg es c))"
proof (induction es arbitrary: c)
  case Nil
  then show ?case by simp
next
  case (Cons e es)
  from Cons.prems have "funded (fst (step cfg e c))" by (rule step_funded)
  then have "funded (fst (run cfg es (fst (step cfg e c))))" by (rule Cons.IH)
  then show ?case by (simp only: run_Cons_fst)
qed

section \<open>The admission runs once\<close>

text \<open>The invariant holds when the connection is set up and after every event.\<close>

lemma on_auth_invariant:
  "\<not> authenticated c \<Longrightarrow> connection_invariant c \<Longrightarrow> connection_invariant (fst (on_auth cfg ev c))"
  using close_and_return_frame [of c]
  by (auto simp: on_auth_def connection_invariant_def split: sum.splits)

lemma enqueue_invariant [simp]:
  "connection_invariant (enqueue_upstream d c) = connection_invariant c"
  by (simp add: connection_invariant_def enqueue_upstream_def)

lemma on_message_invariant:
  "connection_invariant c \<Longrightarrow> connection_invariant (fst (on_message cfg d c))"
  by (simp add: on_message_def on_auth_invariant split: option.splits sum.splits)

lemma close_and_return_invariant: "connection_invariant (fst (close_and_return c)) = connection_invariant c"
  using close_and_return_frame [of c] by (auto simp: connection_invariant_def)

lemma drain_invariant: "connection_invariant (fst (drainMessageQueue cfg c)) = connection_invariant c"
  using drain_frame [of cfg c] by (auto simp: connection_invariant_def)

lemma step_invariant: "connection_invariant c \<Longrightarrow> connection_invariant (fst (step cfg e c))"
proof (cases e)
  case (ClientMessage d)
  assume "connection_invariant c"
  then show ?thesis
    using ClientMessage by (simp add: on_message_invariant)
next
  case DrainTick
  assume "connection_invariant c"
  then show ?thesis
    using DrainTick by (simp add: on_interval_def drain_invariant)
next
  case RelayClosed
  assume "connection_invariant c"
  then show ?thesis
    using RelayClosed by (simp add: close_and_return_invariant)
next
  case ClientClosed
  assume "connection_invariant c"
  then show ?thesis
    using ClientClosed by (simp add: close_and_return_invariant)
next
  case (DMResolved ok)
  assume "connection_invariant c"
  then have "connection_invariant (c\<lparr>awaitDM := None\<rparr>)" by (auto simp: connection_invariant_def)
  then have "connection_invariant (fst (close_and_return (c\<lparr>awaitDM := None\<rparr>)))"
    by (simp add: close_and_return_invariant)
  moreover assume "connection_invariant c"
  ultimately show ?thesis
    using DMResolved by (auto simp: on_dm_def connection_invariant_def split: option.splits)
next
  case (ExpiryBalanceResolved b)
  assume i: "connection_invariant c"
  then have "connection_invariant (c\<lparr>awaitExpiryBalance := None\<rparr>)" by (auto simp: connection_invariant_def)
  then have "connection_invariant (fst (close_and_return (c\<lparr>awaitExpiryBalance := None\<rparr>)))"
    by (simp add: close_and_return_invariant)
  with i show ?thesis
    using ExpiryBalanceResolved by (auto simp: on_expiry_balance_def connection_invariant_def split: option.splits)
next
  case AuthTimerFired
  assume i: "connection_invariant c"
  then have "connection_invariant (c\<lparr>authTimer := False\<rparr>)" by (auto simp: connection_invariant_def)
  then have "connection_invariant (fst (close_and_return (c\<lparr>authTimer := False\<rparr>)))"
    by (simp add: close_and_return_invariant)
  with i show ?thesis
    using AuthTimerFired by (auto simp: on_auth_timer_def connection_invariant_def)
qed (auto simp: connection_invariant_def on_balance_def on_payment_timer_def on_paid_def split: option.splits)

lemma new_connection_invariant: "connection_invariant (new_connection n challenge registry)"
  by (simp add: connection_invariant_def new_connection_def)

lemma run_invariant: "connection_invariant c \<Longrightarrow> connection_invariant (fst (run cfg es c))"
proof (induction es arbitrary: c)
  case Nil
  then show ?case by simp
next
  case (Cons e es)
  from Cons.prems have "connection_invariant (fst (step cfg e c))" by (rule step_invariant)
  then have "connection_invariant (fst (run cfg es (fst (step cfg e c))))" by (rule Cons.IH)
  then show ?case by (simp only: run_Cons_fst)
qed




text \<open>
  As long as the handler of a connection waits for the balance of line 147, no event
  has entered the payment path.
\<close>

lemma step_pre_admission:
  assumes "connection_invariant c" and "pre_admission (fst (step cfg e c))"
  shows "pre_admission c \<and> list_all (\<lambda>a. \<not> dm_path a) (fst (snd (step cfg e c)))"
proof (cases "authenticated c")
  case False
  then have "pre_admission c" by (simp add: pre_admission_def)
  moreover from assms(1) False
  have idle: "awaitBalance c = None" "awaitDM c = None" "paymentTimer c = None"
    by (auto simp: connection_invariant_def)
  have "list_all (\<lambda>a. \<not> dm_path a) (fst (snd (step cfg e c)))"
  proof (cases e)
    case (ClientMessage d)
    have "list_all (\<lambda>a. \<not> dm_path a) (fst (snd (on_auth cfg ev c)))" for ev
      using close_and_return_quiet [of c]
      by (auto simp: on_auth_def list_all_iff split: sum.splits if_splits)
    with ClientMessage show ?thesis
      by (auto simp: on_message_def split: option.splits sum.splits if_splits)
  next
    case DrainTick
    then show ?thesis using drain_quiet [of cfg c] by (simp add: on_interval_def list_all_iff)
  next
    case RelayClosed
    then show ?thesis using close_and_return_quiet [of c] by (simp add: list_all_iff)
  next
    case ClientClosed
    then show ?thesis using close_and_return_quiet [of c] by (simp add: list_all_iff)
  next
    case (ExpiryBalanceResolved b)
    then show ?thesis
      using close_and_return_quiet [of "c\<lparr>awaitExpiryBalance := None\<rparr>"]
      by (auto simp: on_expiry_balance_def list_all_iff split: option.splits)
  next
    case AuthTimerFired
    then show ?thesis
      using close_and_return_quiet [of "c\<lparr>authTimer := False\<rparr>"]
      by (auto simp: on_auth_timer_def list_all_iff)
  qed (use idle in \<open>auto simp: on_balance_def on_dm_def on_payment_timer_def on_paid_def
           split: option.splits\<close>)
  ultimately show ?thesis by simp
next
  case True
  show ?thesis
  proof (cases "awaitBalance c")
    case None
    have "authenticated (fst (step cfg e c))" using True by (rule step_authenticated)
    moreover have "awaitBalance (fst (step cfg e c)) = None"
      using True None
      by (cases e)
         (auto simp: on_message_def enqueue_upstream_def on_balance_def on_dm_def
            on_payment_timer_def on_expiry_balance_def on_paid_def on_auth_timer_def
            on_interval_def close_and_return_fields drain_fields
            split: option.splits)
    ultimately have "\<not> pre_admission (fst (step cfg e c))" by (simp add: pre_admission_def)
    with assms(2) show ?thesis by simp
  next
    case (Some pk)
    then have p: "pre_admission c" by (simp add: pre_admission_def)
    from assms(1) Some have dm: "awaitDM c = None" by (auto simp: connection_invariant_def)
    have "list_all (\<lambda>a. \<not> dm_path a) (fst (snd (step cfg e c)))"
    proof (cases e)
      case (ClientMessage d)
      with True show ?thesis by (simp add: on_message_def)
    next
      case DrainTick
      then show ?thesis using drain_quiet [of cfg c] by (simp add: on_interval_def list_all_iff)
    next
      case RelayClosed
      then show ?thesis using close_and_return_quiet [of c] by (simp add: list_all_iff)
    next
      case ClientClosed
      then show ?thesis using close_and_return_quiet [of c] by (simp add: list_all_iff)
    next
      case (ExpiryBalanceResolved b)
      then show ?thesis
        using close_and_return_quiet [of "c\<lparr>awaitExpiryBalance := None\<rparr>"]
        by (auto simp: on_expiry_balance_def list_all_iff split: option.splits)
    next
      case AuthTimerFired
      then show ?thesis
        using close_and_return_quiet [of "c\<lparr>authTimer := False\<rparr>"]
        by (auto simp: on_auth_timer_def list_all_iff)
    next
      case (BalanceResolved b)
      with assms(2) True Some show ?thesis
        by (auto simp: on_balance_def pre_admission_def split: if_splits)
    qed (use dm in \<open>auto simp: on_dm_def on_payment_timer_def on_paid_def split: option.splits\<close>)
    with p show ?thesis by simp
  qed
qed

lemma run_pre_admission:
  "connection_invariant c \<Longrightarrow> pre_admission (fst (run cfg es c)) \<Longrightarrow>
   pre_admission c \<and> list_all (\<lambda>a. \<not> dm_path a) (snd (run cfg es c))"
proof (induction es arbitrary: c)
  case Nil
  then show ?case by simp
next
  case (Cons e es)
  let ?c1 = "fst (step cfg e c)"
  from Cons.prems(1) have i1: "connection_invariant ?c1" by (rule step_invariant)
  from Cons.prems(2) have p: "pre_admission (fst (run cfg es ?c1))"
    by (simp only: run_Cons_fst)
  from Cons.IH [OF i1 p] have p1: "pre_admission ?c1"
    and t: "list_all (\<lambda>a. \<not> dm_path a) (snd (run cfg es ?c1))" by simp_all
  from step_pre_admission [OF Cons.prems(1) p1]
  have "pre_admission c" and "list_all (\<lambda>a. \<not> dm_path a) (fst (snd (step cfg e c)))"
    by simp_all
  with t show ?case by (simp only: run_Cons_snd list_all_append simp_thms)
qed

text \<open>
  Once a connection has authenticated and its handler is suspended nowhere, no event
  enters the payment path; once it is authenticated and funded, no event looks a
  balance up.
\<close>

lemma step_admitted:
  "admitted c \<Longrightarrow>
   admitted (fst (step cfg e c)) \<and> list_all (\<lambda>a. \<not> dm_path a) (fst (snd (step cfg e c)))"
proof (cases e)
  case DrainTick
  assume "admitted c"
  moreover have "list_all (\<lambda>a. \<not> dm_path a) (fst (snd (drainMessageQueue cfg c)))"
    using drain_quiet [of cfg c] by (simp add: list_all_iff)
  ultimately show ?thesis
    using DrainTick by (simp add: admitted_def on_interval_def drain_fields)
next
  case RelayClosed
  assume "admitted c"
  moreover have "list_all (\<lambda>a. \<not> dm_path a) (fst (snd (close_and_return c)))"
    using close_and_return_quiet [of c] by (simp add: list_all_iff)
  ultimately show ?thesis
    using RelayClosed by (simp add: admitted_def close_and_return_fields)
next
  case ClientClosed
  assume "admitted c"
  moreover have "list_all (\<lambda>a. \<not> dm_path a) (fst (snd (close_and_return c)))"
    using close_and_return_quiet [of c] by (simp add: list_all_iff)
  ultimately show ?thesis
    using ClientClosed by (simp add: admitted_def close_and_return_fields)
next
  case (ExpiryBalanceResolved b)
  assume a: "admitted c"
  have q: "list_all (\<lambda>a. \<not> dm_path a)
      (fst (snd (close_and_return (c\<lparr>awaitExpiryBalance := None\<rparr>))))"
    using close_and_return_quiet [of "c\<lparr>awaitExpiryBalance := None\<rparr>"] by (simp add: list_all_iff)
  from a q show ?thesis
    using ExpiryBalanceResolved
    by (auto simp: admitted_def on_expiry_balance_def close_and_return_fields split: option.splits)
next
  case AuthTimerFired
  assume "admitted c"
  then show ?thesis
    using AuthTimerFired by (auto simp: admitted_def on_auth_timer_def)
qed (auto simp: admitted_def on_message_def enqueue_upstream_def on_balance_def on_dm_def
        on_payment_timer_def on_paid_def split: option.splits)

lemma run_admitted:
  "admitted c \<Longrightarrow> list_all (\<lambda>a. \<not> dm_path a) (snd (run cfg es c))"
proof (induction es arbitrary: c)
  case Nil
  then show ?case by simp
next
  case (Cons e es)
  from step_admitted [OF Cons.prems, of cfg e]
  have a: "admitted (fst (step cfg e c))"
    and t: "list_all (\<lambda>a. \<not> dm_path a) (fst (snd (step cfg e c)))" by simp_all
  from a have "list_all (\<lambda>a. \<not> dm_path a) (snd (run cfg es (fst (step cfg e c))))"
    by (rule Cons.IH)
  with t show ?case by (simp only: run_Cons_snd list_all_append simp_thms)
qed



section \<open>A closed connection stays closed\<close>

text \<open>
  No callback resets \<^verbatim>\<open>closed\<close>, and on a closed connection no callback calls
  \<^verbatim>\<open>close()\<close>, \<^verbatim>\<open>clearInterval\<close> or removes a registry entry.
\<close>

lemma forwarding_no_teardown: "forwarding a \<Longrightarrow> \<not> teardown_call a"
  by (cases a) auto

lemma closed_close_and_return: "closed c \<Longrightarrow> close_and_return c = (c, [], None)"
  by (simp add: close_and_return_def closeConnection_def)

lemma drain_closed: "closed (fst (drainMessageQueue cfg c)) = closed c"
  using drain_frame [of cfg c] by auto

lemma drain_no_teardown:
  "list_all (\<lambda>a. \<not> teardown_call a) (fst (snd (drainMessageQueue cfg c)))"
  using drain_frame [of cfg c] forwarding_no_teardown by (auto simp: list_all_iff)

lemma on_auth_closed:
  "closed c \<Longrightarrow> closed (fst (on_auth cfg ev c)) \<and>
     list_all (\<lambda>a. \<not> teardown_call a) (fst (snd (on_auth cfg ev c)))"
  by (auto simp: on_auth_def closed_close_and_return split: sum.splits)

lemma step_closed:
  "closed c \<Longrightarrow>
   closed (fst (step cfg e c)) \<and> list_all (\<lambda>a. \<not> teardown_call a) (fst (snd (step cfg e c)))"
proof (cases e)
  case DrainTick
  assume "closed c"
  then show ?thesis
    using DrainTick drain_no_teardown [of cfg c] by (simp add: on_interval_def drain_closed)
next
  case (ClientMessage d)
  assume "closed c"
  then show ?thesis
    using ClientMessage on_auth_closed [of c cfg]
    by (simp add: on_message_def enqueue_upstream_def split: option.splits sum.splits)
qed (auto simp: on_balance_def on_dm_def on_payment_timer_def on_expiry_balance_def
        on_paid_def on_auth_timer_def closed_close_and_return split: option.splits)

lemma run_closed:
  "closed c \<Longrightarrow>
   closed (fst (run cfg es c)) \<and> list_all (\<lambda>a. \<not> teardown_call a) (snd (run cfg es c))"
proof (induction es arbitrary: c)
  case Nil
  then show ?case by simp
next
  case (Cons e es)
  from step_closed [OF Cons.prems, of cfg e]
  have c1: "closed (fst (step cfg e c))"
    and t: "list_all (\<lambda>a. \<not> teardown_call a) (fst (snd (step cfg e c)))" by simp_all
  from Cons.IH [OF c1] t show ?case
    by (simp only: run_Cons_fst run_Cons_snd list_all_append simp_thms)
qed

text \<open>
  No callback starts the interval again, and on a closed connection no callback
  changes the registry.
\<close>

lemma close_and_return_timeout:
  "\<not> timeout c \<Longrightarrow> \<not> timeout (fst (close_and_return c))"
  by (cases "closed c")
     (simp_all add: close_and_return_def closeConnection_def try_catch_def socket_close_def)

lemma drain_timeout: "timeout (fst (drainMessageQueue cfg c)) = timeout c"
  using drain_frame [of cfg c] by auto

lemma drain_clients: "clients (fst (drainMessageQueue cfg c)) = clients c"
  using drain_frame [of cfg c] by auto

lemma on_auth_timeout: "\<not> timeout c \<Longrightarrow> \<not> timeout (fst (on_auth cfg ev c))"
  using close_and_return_timeout [of c]
  by (auto simp: on_auth_def split: sum.splits)

lemma step_timeout: "\<not> timeout c \<Longrightarrow> \<not> timeout (fst (step cfg e c))"
proof (cases e)
  case (ClientMessage d)
  assume "\<not> timeout c"
  then show ?thesis
    using ClientMessage on_auth_timeout [of c cfg]
    by (simp add: on_message_def enqueue_upstream_def split: option.splits sum.splits)
next
  case (DMResolved ok)
  assume "\<not> timeout c"
  then show ?thesis
    using DMResolved close_and_return_timeout [of "c\<lparr>awaitDM := None\<rparr>"]
    by (auto simp: on_dm_def split: option.splits)
next
  case (ExpiryBalanceResolved b)
  assume "\<not> timeout c"
  then show ?thesis
    using ExpiryBalanceResolved close_and_return_timeout [of "c\<lparr>awaitExpiryBalance := None\<rparr>"]
    by (auto simp: on_expiry_balance_def split: option.splits)
next
  case AuthTimerFired
  assume "\<not> timeout c"
  then show ?thesis
    using AuthTimerFired close_and_return_timeout [of "c\<lparr>authTimer := False\<rparr>"]
    by (auto simp: on_auth_timer_def)
next
  case RelayClosed
  assume "\<not> timeout c"
  then show ?thesis using RelayClosed close_and_return_timeout [of c] by simp
next
  case ClientClosed
  assume "\<not> timeout c"
  then show ?thesis using ClientClosed close_and_return_timeout [of c] by simp
qed (auto simp: on_balance_def on_payment_timer_def on_paid_def on_interval_def drain_timeout
       split: option.splits)

lemma run_timeout: "\<not> timeout c \<Longrightarrow> \<not> timeout (fst (run cfg es c))"
proof (induction es arbitrary: c)
  case Nil
  then show ?case by simp
next
  case (Cons e es)
  from Cons.prems have "\<not> timeout (fst (step cfg e c))" by (rule step_timeout)
  then have "\<not> timeout (fst (run cfg es (fst (step cfg e c))))" by (rule Cons.IH)
  then show ?case by (simp only: run_Cons_fst simp_thms)
qed

lemma on_auth_closed_clients:
  "closed c \<Longrightarrow> clients (fst (on_auth cfg ev c)) = clients c"
  by (auto simp: on_auth_def closed_close_and_return split: sum.splits)

lemma step_closed_clients: "closed c \<Longrightarrow> clients (fst (step cfg e c)) = clients c"
proof (cases e)
  case (ClientMessage d)
  assume "closed c"
  then show ?thesis
    using ClientMessage on_auth_closed_clients [of c cfg]
    by (simp add: on_message_def enqueue_upstream_def split: option.splits sum.splits)
qed (auto simp: on_balance_def on_dm_def on_payment_timer_def on_expiry_balance_def
        on_paid_def on_auth_timer_def on_interval_def drain_clients closed_close_and_return
        split: option.splits)

lemma run_closed_clients: "closed c \<Longrightarrow> clients (fst (run cfg es c)) = clients c"
proof (induction es arbitrary: c)
  case Nil
  then show ?case by simp
next
  case (Cons e es)
  from step_closed [OF Cons.prems, of cfg e] have "closed (fst (step cfg e c))" by simp
  then have "clients (fst (run cfg es (fst (step cfg e c)))) = clients (fst (step cfg e c))"
    by (rule Cons.IH)
  with Cons.prems show ?case by (simp only: run_Cons_fst step_closed_clients)
qed

section \<open>The claims\<close>

subsection \<open>C1: frames of a connection that is not funded\<close>

text \<open>
  C1 says that on a connection with \<open>authenticated = true\<close> and \<open>funded = false\<close> a
  drain tick forwards a buffered client frame to the relay only when its type is
  \<^verbatim>\<open>REQ\<close> or \<^verbatim>\<open>CLOSE\<close>, every other frame staying queued. The loop does put such a
  frame into \<^verbatim>\<open>reAddUpstream\<close>, but \<^verbatim>\<open>relay.send(data)\<close> at line 275 is outside both
  conditionals: an \<^verbatim>\<open>EVENT\<close> frame on such a connection with the relay link open is
  sent to the relay, and is queued again.
\<close>

theorem unfunded_event_is_forwarded:
  "to_relay (fst (snd (drainMessageQueue example_env (unfunded\<lparr>queueUpstream := [event_frame]\<rparr>))))
     = [event_frame] \<and>
   queueUpstream (fst (drainMessageQueue example_env (unfunded\<lparr>queueUpstream := [event_frame]\<rparr>)))
     = [event_frame]"
  by code_simp

subsection \<open>C2: a frame is sent once\<close>

text \<open>
  C2 says that the drain loop never sends the same queued frame to its destination
  more than once. The frame of C1 is sent and put back on every tick while the
  connection is not funded: two ticks send it twice.
\<close>

theorem deferred_event_is_sent_every_tick:
  "to_relay (snd (run example_env [DrainTick, DrainTick] (unfunded\<lparr>queueUpstream := [event_frame]\<rparr>)))
     = [event_frame, event_frame]"
  by code_simp

subsection \<open>C3: arrival order\<close>

text \<open>
  C3 says that within each direction frames are forwarded in arrival order, and that
  deferred frames keep their order. Both loops take the frames with \<^verbatim>\<open>pop()\<close>, from
  the end of the array that \<^verbatim>\<open>push\<close> fills: on a funded connection with
  \<open>req_frame\<close> queued before \<open>event_frame\<close> and \<open>notice_a\<close> before \<open>notice_b\<close>, the
  later frame is sent first in both directions. The deferred frames of a connection
  that is not funded go back in the order the loop popped them: a tick reverses them.
\<close>

theorem drain_is_last_in_first_out:
  "to_relay (fst (snd (drainMessageQueue example_env
       (funded_conn\<lparr>queueUpstream := [req_frame, event_frame],
                    queueDownstream := [notice_a, notice_b]\<rparr>))))
     = [event_frame, req_frame] \<and>
   to_client (fst (snd (drainMessageQueue example_env
       (funded_conn\<lparr>queueUpstream := [req_frame, event_frame],
                    queueDownstream := [notice_a, notice_b]\<rparr>))))
     = [notice_b, notice_a] \<and>
   queueUpstream (fst (drainMessageQueue example_env
       (unfunded\<lparr>queueUpstream := [event_frame, second_event_frame]\<rparr>)))
     = [second_event_frame, event_frame]"
  by code_simp

subsection \<open>C4: what teardown cancels\<close>

text \<open>
  C4 as stated (teardown cancels the drain timer, the auth timer and the payment
  timer, and retires the payment waiter) fails: on the connection that waits for a
  payment and is then closed by its client, the auth timer, the payment timer and the
  waiter are all still there, the waiter sets \<open>funded\<close> when the payment arrives and
  the timer looks the balance up when it fires.
\<close>

theorem teardown_leaves_payment_timer_counterexample:
  "closed closed_awaiting_payment \<and> authTimer closed_awaiting_payment \<and>
   paymentTimer closed_awaiting_payment = Some (JStr ''alice'') \<and>
   paidListener closed_awaiting_payment = Some (JStr ''alice'') \<and>
   funded (fst (step example_env (PaidEmitted (JStr ''alice'')) closed_awaiting_payment)) \<and>
   fst (snd (step example_env PaymentTimerFired closed_awaiting_payment)) = [GetBalanceInSats (JStr ''alice'')]"
  by code_simp

text \<open>
  C4, amended: after teardown of a connection completes its drain timer is cancelled
  (\<^verbatim>\<open>clearInterval\<close> is called once, and the interval stays off and a drain tick
  does nothing then and after any later events of the connection), and the auth
  timer, the payment timer and the payment waiter are as they were before: teardown
  neither cancels nor retires them. When one of them fires later, the connection is
  not torn down a second time.
\<close>

theorem teardown_cancels_the_drain_timer_only:
  assumes "\<not> closed c" and "closeConnection c = Inr (c', tr)"
  shows "timeout c' = False \<and> count_list tr ClearInterval = 1 \<and>
         step cfg DrainTick c' = (c', [], None) \<and>
         authTimer c' = authTimer c \<and> paymentTimer c' = paymentTimer c \<and>
         paidListener c' = paidListener c \<and>
         (\<forall>es. list_all (\<lambda>a. \<not> teardown_call a) (snd (run cfg es c'))) \<and>
         (\<forall>es. timeout (fst (run cfg es c')) = False \<and>
               step cfg DrainTick (fst (run cfg es c')) = (fst (run cfg es c'), [], None))"
proof -
  from assms have c': "c' = c\<lparr>timeout := False, clients := clients c - {id_num c}, closed := True\<rparr>"
    by (auto simp: closeConnection_def try_catch_def socket_close_def split: if_splits)
  from assms have "count_list tr ClearInterval = 1"
    by (auto simp: closeConnection_def try_catch_def socket_close_def split: if_splits)
  moreover from c' have "closed c'" by simp
  then have "\<forall>es. list_all (\<lambda>a. \<not> teardown_call a) (snd (run cfg es c'))"
    using run_closed by blast
  moreover from c' have "step cfg DrainTick c' = (c', [], None)"
    by (simp add: on_interval_def)
  moreover from c' have "\<not> timeout c'" by simp
  then have off: "\<not> timeout (fst (run cfg es c'))" for es by (rule run_timeout)
  then have "\<forall>es. timeout (fst (run cfg es c')) = False \<and>
               step cfg DrainTick (fst (run cfg es c')) = (fst (run cfg es c'), [], None)"
    by (simp add: on_interval_def)
  ultimately show ?thesis using c' by simp
qed

text \<open>The theorem of C4 on the connection of the counterexample.\<close>

theorem teardown_cancels_the_drain_timer_only_witness:
  "\<not> closed awaiting_payment \<and>
   closeConnection awaiting_payment = Inr (closed_awaiting_payment,
      [ClearInterval, DeleteClient 1, WsClose, RelayClose]) \<and>
   timeout closed_awaiting_payment = False \<and>
   step example_env DrainTick closed_awaiting_payment = (closed_awaiting_payment, [], None) \<and>
   authTimer closed_awaiting_payment = authTimer awaiting_payment \<and>
   paymentTimer closed_awaiting_payment = paymentTimer awaiting_payment \<and>
   paidListener closed_awaiting_payment = paidListener awaiting_payment \<and>
   list_all (\<lambda>a. \<not> teardown_call a)
     (snd (run example_env [AuthTimerFired, PaymentTimerFired, ExpiryBalanceResolved (Some 0)]
             closed_awaiting_payment)) \<and>
   timeout (fst (run example_env [RelayMessage notice_a, ClientMessage event_frame]
             closed_awaiting_payment)) = False \<and>
   step example_env DrainTick
       (fst (run example_env [RelayMessage notice_a, ClientMessage event_frame]
               closed_awaiting_payment))
     = (fst (run example_env [RelayMessage notice_a, ClientMessage event_frame]
               closed_awaiting_payment), [], None)"
proof -
  have 1: "\<not> closed awaiting_payment" by code_simp
  have 2: "closeConnection awaiting_payment = Inr (closed_awaiting_payment,
      [ClearInterval, DeleteClient 1, WsClose, RelayClose])" by code_simp
  from teardown_cancels_the_drain_timer_only [OF 1 2, of example_env] 1 2
  show ?thesis by blast
qed

subsection \<open>C5: the downstream phase\<close>

text \<open>
  C5 as stated (with the client socket open every frame buffered from the relay is
  forwarded, whatever \<open>authenticated\<close> is) fails: \<^verbatim>\<open>drainMessageQueue\<close> returns at
  line 246 on a connection that has not authenticated, before either phase.
\<close>

theorem unauthenticated_downstream_counterexample:
  "ws_readyState (fresh\<lparr>queueDownstream := [notice_a]\<rparr>) = OPEN \<and>
   \<not> authenticated (fresh\<lparr>queueDownstream := [notice_a]\<rparr>) \<and>
   \<not> closed (fresh\<lparr>queueDownstream := [notice_a]\<rparr>) \<and>
   to_client (fst (snd (drainMessageQueue example_env (fresh\<lparr>queueDownstream := [notice_a]\<rparr>))))
     = [] \<and>
   queueDownstream (fst (drainMessageQueue example_env (fresh\<lparr>queueDownstream := [notice_a]\<rparr>)))
     = [notice_a]"
  by code_simp

text \<open>
  C5, amended: on a drain tick, if the client socket is not open, or the connection
  has not authenticated, no frame buffered from the relay is forwarded and all remain
  queued; if the client socket is open, the connection has authenticated (funded or
  not), no exception left the upstream phase and no buffered frame is the empty
  string, all frames buffered from the relay are forwarded to the client, each
  once, and none remains queued.
\<close>

theorem drain_downstream:
  assumes "drainMessageQueue cfg c = (c', tr, err)"
  shows "(ws_readyState c \<noteq> OPEN \<longrightarrow>
            to_client tr = [] \<and> queueDownstream c' = queueDownstream c) \<and>
         (\<not> authenticated c \<longrightarrow>
            to_client tr = [] \<and> queueDownstream c' = queueDownstream c) \<and>
         (ws_readyState c = OPEN \<and> authenticated c \<and> err = None \<and>
          (\<forall>d\<in>set (queueDownstream c). truthy_data d) \<longrightarrow>
            mset (to_client tr) = mset (queueDownstream c) \<and> queueDownstream c' = [])"
proof (cases "authenticated c")
  case False
  with assms show ?thesis by (simp add: drainMessageQueue_def)
next
  case True
  from upstream_phase_frame obtain qu tr1 e1
    where u: "upstream_phase cfg c = (c\<lparr>queueUpstream := qu\<rparr>, tr1, e1)"
      and "list_all upstream_call tr1" by blast
  then have t1: "to_client tr1 = []" by (simp add: to_client_upstream)
  show ?thesis
  proof (cases e1)
    case (Some e)
    with True u assms have "c' = c\<lparr>queueUpstream := qu\<rparr>" "tr = tr1" "err = Some e"
      by (simp_all add: drainMessageQueue_def)
    with t1 True show ?thesis by simp
  next
    case None
    with True u assms
    have d: "downstream_phase (c\<lparr>queueUpstream := qu\<rparr>) = (c', drop (length tr1) tr)"
      and tr: "tr = tr1 @ drop (length tr1) tr" and "err = None"
      by (auto simp: drainMessageQueue_def split: prod.splits)
    show ?thesis
    proof (cases "ws_readyState c = OPEN")
      case False
      with d have "c' = c\<lparr>queueUpstream := qu\<rparr>" "drop (length tr1) tr = []"
        by (simp_all add: downstream_phase_def)
      with tr t1 False True show ?thesis by simp
    next
      case is_open: True
      show ?thesis
      proof (cases "\<forall>d\<in>set (queueDownstream c). truthy_data d")
        case False
        with is_open True show ?thesis by blast
      next
        case all: True
        then have "downstream_loop (queueDownstream c) [] = ([], map WsSend (rev (queueDownstream c)))"
          using downstream_loop_all [of "queueDownstream c" "[]"] by simp
        with d is_open have "queueDownstream c' = []"
          and "drop (length tr1) tr = map WsSend (rev (queueDownstream c))"
          by (auto simp: downstream_phase_def)
        with tr t1 have "to_client tr = rev (queueDownstream c)"
          by (metis append_Nil to_client_WsSend to_client_append)
        then have "mset (to_client tr) = mset (queueDownstream c)" by simp
        with \<open>queueDownstream c' = []\<close> is_open True show ?thesis by simp
      qed
    qed
  qed
qed

text \<open>
  The theorem of C5 on a funded connection with two frames from the relay, with its
  client socket open and with its client socket closing.
\<close>

theorem drain_downstream_witness:
  "ws_readyState (funded_conn\<lparr>queueDownstream := [notice_a, notice_b]\<rparr>) = OPEN \<and>
   authenticated (funded_conn\<lparr>queueDownstream := [notice_a, notice_b]\<rparr>) \<and>
   snd (snd (drainMessageQueue example_env (funded_conn\<lparr>queueDownstream := [notice_a, notice_b]\<rparr>)))
     = None \<and>
   truthy_data notice_a \<and> truthy_data notice_b \<and>
   mset (to_client (fst (snd (drainMessageQueue example_env
       (funded_conn\<lparr>queueDownstream := [notice_a, notice_b]\<rparr>))))) = mset [notice_a, notice_b] \<and>
   queueDownstream (fst (drainMessageQueue example_env
       (funded_conn\<lparr>queueDownstream := [notice_a, notice_b]\<rparr>))) = [] \<and>
   ws_readyState (funded_conn\<lparr>queueDownstream := [notice_a, notice_b], ws_readyState := CLOSING\<rparr>)
     \<noteq> OPEN \<and>
   to_client (fst (snd (drainMessageQueue example_env
       (funded_conn\<lparr>queueDownstream := [notice_a, notice_b], ws_readyState := CLOSING\<rparr>)))) = [] \<and>
   queueDownstream (fst (drainMessageQueue example_env
       (funded_conn\<lparr>queueDownstream := [notice_a, notice_b], ws_readyState := CLOSING\<rparr>)))
     = [notice_a, notice_b]"
proof -
  let ?c = "funded_conn\<lparr>queueDownstream := [notice_a, notice_b]\<rparr>"
  let ?r = "drainMessageQueue example_env ?c"
  let ?d = "funded_conn\<lparr>queueDownstream := [notice_a, notice_b], ws_readyState := CLOSING\<rparr>"
  let ?s = "drainMessageQueue example_env ?d"
  have 1: "ws_readyState ?c = OPEN" "authenticated ?c"
    by (simp_all add: funded_conn_def fresh_def new_connection_def)
  have 2: "snd (snd ?r) = None" by code_simp
  have 3: "truthy_data notice_a" "truthy_data notice_b"
    by (simp_all add: notice_a_def notice_b_def)
  have 4: "queueDownstream ?c = [notice_a, notice_b]" "queueDownstream ?d = [notice_a, notice_b]"
    by simp_all
  have 5: "ws_readyState ?d \<noteq> OPEN" by simp
  have r: "?r = (fst ?r, fst (snd ?r), snd (snd ?r))" by simp
  have s: "?s = (fst ?s, fst (snd ?s), snd (snd ?s))" by simp
  from drain_downstream [OF r] drain_downstream [OF s] 1 2 3 4 5 show ?thesis by simp
qed

subsection \<open>C6: teardown is idempotent\<close>

text \<open>
  C6: \<^verbatim>\<open>closeConnection\<close> never raises, whether or not closing a socket does; it
  leaves the connection closed, and every further call, at once or after any events
  of the connection, returns immediately, doing nothing and changing nothing; no
  event after the first call closes a socket or touches the registry again. A call
  on a closed connection does nothing. The first call on a connection that is not
  closed calls \<^verbatim>\<open>close()\<close> once on each socket and makes one registry removal, of
  the connection's own id: the registry afterwards is the registry before without
  that id.
\<close>

theorem closeConnection_idempotent:
  "\<exists>c1 tr1. closeConnection c = Inr (c1, tr1) \<and> closed c1 \<and>
      closeConnection c1 = Inr (c1, []) \<and>
      (\<forall>es. closeConnection (fst (run cfg es c1)) = Inr (fst (run cfg es c1), []) \<and>
            list_all (\<lambda>a. \<not> teardown_call a) (snd (run cfg es c1)) \<and>
            clients (fst (run cfg es c1)) = clients c1) \<and>
      (closed c \<longrightarrow> c1 = c \<and> tr1 = []) \<and>
      (\<not> closed c \<longrightarrow>
         count_list tr1 WsClose = 1 \<and> count_list tr1 RelayClose = 1 \<and>
         count_list tr1 (DeleteClient (id_num c)) = 1 \<and> id_num c \<notin> clients c1 \<and>
         (\<forall>n. count_list tr1 (DeleteClient n) = (if n = id_num c then 1 else 0)) \<and>
         clients c1 = clients c - {id_num c})"
proof -
  have "\<exists>c1 tr1. closeConnection c = Inr (c1, tr1) \<and> closed c1 \<and>
      (closed c \<longrightarrow> c1 = c \<and> tr1 = []) \<and>
      (\<not> closed c \<longrightarrow>
         count_list tr1 WsClose = 1 \<and> count_list tr1 RelayClose = 1 \<and>
         count_list tr1 (DeleteClient (id_num c)) = 1 \<and> id_num c \<notin> clients c1 \<and>
         (\<forall>n. count_list tr1 (DeleteClient n) = (if n = id_num c then 1 else 0)) \<and>
         clients c1 = clients c - {id_num c})"
    by (simp add: closeConnection_def try_catch_def socket_close_def Let_def)
  then obtain c1 tr1 where 1: "closeConnection c = Inr (c1, tr1)" and 2: "closed c1"
    and 3: "closed c \<longrightarrow> c1 = c \<and> tr1 = []"
    and 4: "\<not> closed c \<longrightarrow>
         count_list tr1 WsClose = 1 \<and> count_list tr1 RelayClose = 1 \<and>
         count_list tr1 (DeleteClient (id_num c)) = 1 \<and> id_num c \<notin> clients c1 \<and>
         (\<forall>n. count_list tr1 (DeleteClient n) = (if n = id_num c then 1 else 0)) \<and>
         clients c1 = clients c - {id_num c}"
    by blast
  have "closeConnection c' = Inr (c', [])" if "closed c'" for c'
    using that by (simp add: closeConnection_def)
  with 2 run_closed [OF 2, of cfg] run_closed_clients [OF 2, of cfg]
  have "closeConnection c1 = Inr (c1, [])"
    and "\<forall>es. closeConnection (fst (run cfg es c1)) = Inr (fst (run cfg es c1), []) \<and>
            list_all (\<lambda>a. \<not> teardown_call a) (snd (run cfg es c1)) \<and>
            clients (fst (run cfg es c1)) = clients c1"
    by simp_all
  with 1 2 3 4 show ?thesis by blast
qed

text \<open>
  The theorem of C6 on connection 1, whose client socket raises on \<^verbatim>\<open>close()\<close>, with
  connection 2 in the registry as well.
\<close>

theorem closeConnection_idempotent_witness:
  "\<not> closed ((new_connection 1 ''c1'' {2})\<lparr>ws_close_throws := True\<rparr>) \<and>
   clients ((new_connection 1 ''c1'' {2})\<lparr>ws_close_throws := True\<rparr>) = {1, 2} \<and>
   closeConnection ((new_connection 1 ''c1'' {2})\<lparr>ws_close_throws := True\<rparr>)
     = Inr ((new_connection 1 ''c1'' {2})
              \<lparr>ws_close_throws := True, timeout := False, clients := {2}, closed := True\<rparr>,
            [ClearInterval, DeleteClient 1, WsClose, CaughtWsClose, RelayClose]) \<and>
   closeConnection ((new_connection 1 ''c1'' {2})
              \<lparr>ws_close_throws := True, timeout := False, clients := {2}, closed := True\<rparr>)
     = Inr ((new_connection 1 ''c1'' {2})
              \<lparr>ws_close_throws := True, timeout := False, clients := {2}, closed := True\<rparr>, []) \<and>
   clients (fst (run example_env [ClientClosed, RelayClosed, AuthTimerFired]
      ((new_connection 1 ''c1'' {2})
              \<lparr>ws_close_throws := True, timeout := False, clients := {2}, closed := True\<rparr>)))
     = {2}"
proof -
  let ?c = "(new_connection 1 ''c1'' {2})\<lparr>ws_close_throws := True\<rparr>"
  let ?c1 = "(new_connection 1 ''c1'' {2})
              \<lparr>ws_close_throws := True, timeout := False, clients := {2}, closed := True\<rparr>"
  have 1: "\<not> closed ?c" "clients ?c = {1, 2}"
    by (simp_all add: new_connection_def)
  have 2: "closeConnection ?c
     = Inr (?c1, [ClearInterval, DeleteClient 1, WsClose, CaughtWsClose, RelayClose])"
    by (simp add: new_connection_def closeConnection_def try_catch_def socket_close_def)
  from closeConnection_idempotent [of ?c example_env] 2
  have 3: "closeConnection ?c1 = Inr (?c1, [])"
    and 4: "\<forall>es. clients (fst (run example_env es ?c1)) = clients ?c1"
    by auto
  from 4 have "clients (fst (run example_env [ClientClosed, RelayClosed, AuthTimerFired] ?c1))
      = clients ?c1"
    by (rule spec)
  also have "clients ?c1 = {2}" by simp
  finally have 5: "clients (fst (run example_env [ClientClosed, RelayClosed, AuthTimerFired] ?c1))
      = {2}" .
  from 1 2 3 5 show ?thesis by blast
qed

subsection \<open>C7: a sufficient balance\<close>

text \<open>
  C7 as stated (a balance of at least the required collateral funds the connection
  and the payment path is never entered) fails where no collateral is required and
  the balance is 0: line 148 tests \<^verbatim>\<open>balance &&\<close> first, and 0 is falsy, so the
  prompt is sent and the connection is not funded.
\<close>

theorem zero_balance_zero_collateral_counterexample:
  "collateralRequired free_env \<le> 0 \<and>
   awaitBalance awaiting_balance = Some (JStr ''alice'') \<and>
   \<not> funded (fst (step free_env (BalanceResolved (Some 0)) awaiting_balance)) \<and>
   fst (snd (step free_env (BalanceResolved (Some 0)) awaiting_balance))
     = [AskForCollateral (JStr ''alice'')]"
  by code_simp

text \<open>
  C7, amended: for every connection that is not the operator's (its handler is
  suspended at the balance lookup of line 147), if the balance returned is not 0 and
  is at least the required collateral, then \<open>funded\<close> is set to true and stays true,
  and at no event of the connection, from its set-up on, is the payment prompt sent,
  the payment timer set or the payment waiter registered.
\<close>

theorem sufficient_balance_skips_payment_path:
  assumes "run cfg es0 (new_connection n challenge registry) = (c, tr0)"
    and "awaitBalance c = Some pubkey"
    and "balance \<noteq> 0"
    and "collateralRequired cfg \<le> balance"
    and "run cfg (BalanceResolved (Some balance) # es) c = (c', tr)"
  shows "funded c' \<and> list_all (\<lambda>a. \<not> dm_path a) (tr0 @ tr)"
proof -
  let ?c0 = "new_connection n challenge registry"
  let ?c1 = "fst (step cfg (BalanceResolved (Some balance)) c)"
  from assms(1) have c: "c = fst (run cfg es0 ?c0)" and tr0: "tr0 = snd (run cfg es0 ?c0)"
    by simp_all
  have inv: "connection_invariant c"
    unfolding c by (rule run_invariant) (rule new_connection_invariant)
  from assms(2) have "pre_admission c" by (simp add: pre_admission_def)
  then have before: "list_all (\<lambda>a. \<not> dm_path a) tr0"
    unfolding c tr0 using run_pre_admission [OF new_connection_invariant] by blast
  from inv assms(2) have auth: "authenticated c" and dm: "awaitDM c = None"
    by (auto simp: connection_invariant_def)
  from assms(2,3,4) have s: "step cfg (BalanceResolved (Some balance)) c
      = (c\<lparr>awaitBalance := None, funded := True\<rparr>, [], None)"
    by (simp add: on_balance_def sufficient_def)
  with auth dm have a: "admitted ?c1" and f: "funded ?c1"
    by (simp_all add: admitted_def)
  from f have "funded (fst (run cfg es ?c1))" by (rule run_funded)
  then have "funded (fst (run cfg (BalanceResolved (Some balance) # es) c))"
    by (simp only: run_Cons_fst)
  moreover from a have "list_all (\<lambda>a. \<not> dm_path a) (snd (run cfg es ?c1))"
    by (rule run_admitted)
  with s have "list_all (\<lambda>a. \<not> dm_path a) (snd (run cfg (BalanceResolved (Some balance) # es) c))"
    by (simp only: run_Cons_snd) simp
  ultimately show ?thesis using assms(5) before by simp
qed

text \<open>
  The theorem of C7 on connection 1, once its relay link is open and its client has
  sent the \<^verbatim>\<open>AUTH\<close> frame, with a balance of 10 and 10 required.
\<close>

theorem sufficient_balance_skips_payment_path_witness:
  "run example_env [RelaySocketChanged OPEN False, ClientMessage auth_frame]
      (new_connection 1 ''c1'' {}) = (awaiting_balance, [GetBalanceInSats (JStr ''alice'')]) \<and>
   awaitBalance awaiting_balance = Some (JStr ''alice'') \<and>
   collateralRequired example_env \<le> 10 \<and>
   funded (fst (run example_env
      [BalanceResolved (Some 10), DMResolved True, PaymentTimerFired, DrainTick] awaiting_balance)) \<and>
   list_all (\<lambda>a. \<not> dm_path a) ([GetBalanceInSats (JStr ''alice'')] @ snd (run example_env
      [BalanceResolved (Some 10), DMResolved True, PaymentTimerFired, DrainTick] awaiting_balance))"
proof -
  let ?es = "[DMResolved True, PaymentTimerFired, DrainTick]"
  let ?r = "run example_env (BalanceResolved (Some 10) # ?es) awaiting_balance"
  have 1: "run example_env [RelaySocketChanged OPEN False, ClientMessage auth_frame]
      (new_connection 1 ''c1'' {}) = (awaiting_balance, [GetBalanceInSats (JStr ''alice'')])"
    by code_simp
  have 2: "awaitBalance awaiting_balance = Some (JStr ''alice'')" by code_simp
  have 3: "(10::int) \<noteq> 0" by simp
  have 4: "collateralRequired example_env \<le> 10" by (simp add: example_env_def)
  have 5: "?r = (fst ?r, snd ?r)" by simp
  from sufficient_balance_skips_payment_path [OF 1 2 3 4 5] 1 2 4 show ?thesis by blast
qed

subsection \<open>C8: the operator's own key\<close>



subsection \<open>C9: the flags are monotone\<close>

text \<open>
  C9: once \<open>authenticated\<close> is true it is true after every sequence of events (client
  and relay messages, drain ticks, timers, the payment webhook, resumed lookups and
  teardown), and so is \<open>funded\<close>.
\<close>

theorem flags_monotone:
  "(authenticated c \<longrightarrow> authenticated (fst (run cfg es c))) \<and>
   (funded c \<longrightarrow> funded (fst (run cfg es c)))"
  by (simp add: run_authenticated run_funded)

text \<open>The theorem of C9 on a funded connection that is then closed.\<close>

theorem flags_monotone_witness:
  "authenticated funded_conn \<and> funded funded_conn \<and>
   authenticated (fst (run example_env
      [DrainTick, PaymentTimerFired, PaidEmitted (JStr ''alice''), AuthTimerFired, ClientClosed]
      funded_conn)) \<and>
   funded (fst (run example_env
      [DrainTick, PaymentTimerFired, PaidEmitted (JStr ''alice''), AuthTimerFired, ClientClosed]
      funded_conn))"
proof -
  have "authenticated funded_conn" "funded funded_conn"
    by (simp_all add: funded_conn_def)
  with flags_monotone [of funded_conn example_env
      "[DrainTick, PaymentTimerFired, PaidEmitted (JStr ''alice''), AuthTimerFired, ClientClosed]"]
  show ?thesis by simp
qed

subsection \<open>C10: validateAuthEvent is total\<close>

text \<open>
  C10: for every event \<^verbatim>\<open>validateAuthEvent\<close> returns a boolean and raises nothing,
  and it returns \<^verbatim>\<open>false\<close> whenever its \<^verbatim>\<open>try\<close> block raises.
\<close>

theorem validateAuthEvent_total:
  "(\<exists>b. validateAuthEvent cfg event challenge = Inr b) \<and>
   (\<forall>e. validateAuthEvent_try cfg event challenge = Inl e \<longrightarrow>
        validateAuthEvent cfg event challenge = Inr False)"
  by (cases "validateAuthEvent_try cfg event challenge")
     (auto simp: validateAuthEvent_def try_catch_def)

text \<open>
  The theorem of C10 on an event with no \<^verbatim>\<open>tags\<close>: \<^verbatim>\<open>event.tags.find\<close> raises
  \<^verbatim>\<open>TypeError\<close>, and the function returns \<^verbatim>\<open>false\<close>.
\<close>

theorem validateAuthEvent_total_witness:
  "validateAuthEvent_try example_env (JObj [(''pubkey'', JStr ''alice'')]) ''c1'' = Inl TypeError \<and>
   validateAuthEvent example_env (JObj [(''pubkey'', JStr ''alice'')]) ''c1'' = Inr False"
proof -
  have "validateAuthEvent_try example_env (JObj [(''pubkey'', JStr ''alice'')]) ''c1'' = Inl TypeError"
    by code_simp
  with validateAuthEvent_total [of example_env "JObj [(''pubkey'', JStr ''alice'')]" "''c1''"]
  show ?thesis by simp
qed

end
